theory Spec2Isabelle
  imports Main "HOL-Library.Word" "HOL-Library.Extended_Nat" "HOL-Library.AList"
begin

text \<open>
  A model of the page-level buffer pool of BusTub as this repository implements it: the
  LRU-K replacer, the frames and the buffer pool manager, the read and write page guards,
  and the request/completion contract of the disk scheduler. Member functions are
  functions from the state before the call to the result and the state after it;
  members keep their names without the trailing underscore. One thread runs at a time.
  The pool latch and the frame latches are part of the state, so that a call which has
  to wait for a latch that cannot be released is a value of its own.
\<close>

section \<open>Common types\<close>

text \<open>
  \<^verbatim>\<open>frame_id_t\<close> and \<^verbatim>\<open>page_id_t\<close> are signed integers in the sources (the
  replacer tests \<^verbatim>\<open>frame_id < 0\<close> and uses \<^verbatim>\<open>-1\<close> as "no frame"), \<^verbatim>\<open>size_t\<close> is an
  unsigned 64-bit integer whose arithmetic wraps around.
\<close>

type_synonym frame_id_t = int
type_synonym page_id_t = int
type_synonym size_t = "64 word"

text \<open>
  Every way in which a call of the sources does not return normally is a value:
  \<^item> \<open>InvalidFrame\<close>: \<^verbatim>\<open>throw std::invalid_argument("Invalid frame_id")\<close>;
  \<^item> \<open>NonEvictable\<close>: \<^verbatim>\<open>throw std::invalid_argument("Cannot remove non-evictable frame")\<close>;
  \<^item> \<open>EmptyFront\<close>: \<^verbatim>\<open>front()\<close> of an empty \<^verbatim>\<open>std::list\<close> (undefined behaviour);
  \<^item> \<open>BadFrameIndex\<close>: \<^verbatim>\<open>frames_.at(fid)\<close> or \<^verbatim>\<open>frames_[fid]\<close> outside the frame array;
  \<^item> \<open>EnsureFailed\<close>: a failed \<^verbatim>\<open>BUSTUB_ENSURE\<close>, which terminates the process;
  \<^item> \<open>Aborted\<close>: \<^verbatim>\<open>std::abort()\<close>;
  \<^item> \<open>Deadlock\<close>: \<^verbatim>\<open>lock()\<close> of the \<^verbatim>\<open>std::mutex\<close> pool latch by the thread that
    already owns it (undefined behaviour; the call does not return);
  \<^item> \<open>Blocked\<close>: a wait for a frame's reader-writer latch that a guard holds;
  \<^item> \<open>NotLocked\<close>: an unlock of a frame latch that is not held in that mode
    (undefined behaviour);
  \<^item> \<open>NullBuffer\<close>: a disk write from a null \<^verbatim>\<open>data_\<close> pointer.
\<close>

datatype error =
  InvalidFrame | NonEvictable | EmptyFront | BadFrameIndex
  | EnsureFailed | Aborted | Deadlock | Blocked | NotLocked | NullBuffer

text \<open>Sequencing of calls that may fail: the first failure ends the computation.\<close>

definition and_then :: "error + 'a \<Rightarrow> ('a \<Rightarrow> error + 'b) \<Rightarrow> error + 'b" where
  "and_then m f = (case m of Inl e \<Rightarrow> Inl e | Inr x \<Rightarrow> f x)"

section \<open>The LRU-K replacer (lru\_k\_replacer.cpp)\<close>

text \<open>
  The three \<^verbatim>\<open>std::unordered_map\<close>s of the replacer. \<^verbatim>\<open>node_store_\<close> is the one that
  \<^verbatim>\<open>Evict\<close> iterates over; its values (\<^verbatim>\<open>LRUKNode\<close>) are never read, so it is the list
  of its keys, in iteration order (which C++ leaves unspecified: the theorems hold for
  every order). \<^verbatim>\<open>access_history_\<close> and \<^verbatim>\<open>evictable_\<close> are only looked up by key.
  The replacer's own \<^verbatim>\<open>latch_\<close> is taken at the start of each operation and released at
  its end, and no operation calls another one, so it is not part of the state.
  \<open>k_dist\<close> is the member \<^verbatim>\<open>k_\<close>.
\<close>

record LRUKReplacer =
  node_store :: "frame_id_t list"
  access_history :: "frame_id_t \<rightharpoonup> size_t list"
  evictable :: "frame_id_t \<rightharpoonup> bool"
  current_timestamp :: size_t
  curr_size :: size_t
  replacer_size :: size_t
  k_dist :: size_t

text \<open>The constructor \<^verbatim>\<open>LRUKReplacer(num_frames, k)\<close>.\<close>

definition LRUKReplacer_new :: "size_t \<Rightarrow> size_t \<Rightarrow> LRUKReplacer" where
  "LRUKReplacer_new num_frames k =
     \<lparr>node_store = [], access_history = Map.empty, evictable = Map.empty,
      current_timestamp = 0, curr_size = 0, replacer_size = num_frames, k_dist = k\<rparr>"

text \<open>
  \<^verbatim>\<open>operator[]\<close> of \<^verbatim>\<open>std::unordered_map\<close>: a missing key is inserted with the default
  value (\<^verbatim>\<open>false\<close>, the empty list) before the entry is read.
\<close>

definition evictable_at :: "frame_id_t \<Rightarrow> LRUKReplacer \<Rightarrow> bool \<times> LRUKReplacer" where
  "evictable_at f r =
     (case evictable r f of
        Some b \<Rightarrow> (b, r)
      | None \<Rightarrow> (False, r\<lparr>evictable := (evictable r)(f \<mapsto> False)\<rparr>))"

definition access_history_at :: "frame_id_t \<Rightarrow> LRUKReplacer \<Rightarrow> size_t list \<times> LRUKReplacer" where
  "access_history_at f r =
     (case access_history r f of
        Some h \<Rightarrow> (h, r)
      | None \<Rightarrow> ([], r\<lparr>access_history := (access_history r)(f \<mapsto> [])\<rparr>))"

subsection \<open>Evict\<close>

text \<open>The local variables of \<^verbatim>\<open>Evict\<close> that the loop updates.\<close>

record evict_vars =
  evict_frame :: frame_id_t
  max_backward_k_distance :: size_t
  earliest_timestamp :: size_t
  found_inf :: bool

text \<open>
  \<^verbatim>\<open>std::numeric_limits<size_t>::max()\<close> is the word \<open>- 1\<close>.
\<close>

definition evict_vars_init :: evict_vars where
  "evict_vars_init =
     \<lparr>evict_frame = - 1, max_backward_k_distance = 0, earliest_timestamp = - 1,
      found_inf = False\<rparr>"

text \<open>One iteration of the loop over \<^verbatim>\<open>node_store_\<close>, for the entry with key \<open>f\<close>.\<close>

definition Evict_body ::
  "frame_id_t \<Rightarrow> evict_vars \<times> LRUKReplacer \<Rightarrow> error + evict_vars \<times> LRUKReplacer" where
  "Evict_body f vr =
     (let (v, r) = vr; (ev, r1) = evictable_at f r in
      if \<not> ev then Inr (v, r1)
      else
        let (h, r2) = access_history_at f r1 in
        if length h < unat (k_dist r2) then
          (case h of
             [] \<Rightarrow> Inr (v, r2)
           | oldest_timestamp # _ \<Rightarrow>
               if \<not> found_inf v \<or> oldest_timestamp < earliest_timestamp v
               then Inr (v\<lparr>evict_frame := f, earliest_timestamp := oldest_timestamp,
                           found_inf := True\<rparr>, r2)
               else Inr (v, r2))
        else if \<not> found_inf v then
          (case h of
             [] \<Rightarrow> Inl EmptyFront
           | kth_timestamp # _ \<Rightarrow>
               let backward_k_distance = current_timestamp r2 - kth_timestamp in
               if evict_frame v = - 1 \<or> max_backward_k_distance v < backward_k_distance
               then Inr (v\<lparr>evict_frame := f,
                           max_backward_k_distance := backward_k_distance\<rparr>, r2)
               else Inr (v, r2))
        else Inr (v, r2))"

fun Evict_loop ::
  "frame_id_t list \<Rightarrow> evict_vars \<times> LRUKReplacer \<Rightarrow> error + evict_vars \<times> LRUKReplacer" where
  "Evict_loop [] vr = Inr vr"
| "Evict_loop (f # fs) vr =
     (case Evict_body f vr of Inl e \<Rightarrow> Inl e | Inr vr' \<Rightarrow> Evict_loop fs vr')"

text \<open>The three \<^verbatim>\<open>erase\<close> calls and \<^verbatim>\<open>curr_size_--\<close> that \<^verbatim>\<open>Evict\<close> and \<^verbatim>\<open>Remove\<close> end with.\<close>

definition erase_frame :: "frame_id_t \<Rightarrow> LRUKReplacer \<Rightarrow> LRUKReplacer" where
  "erase_frame f r =
     r\<lparr>node_store := removeAll f (node_store r),
       access_history := (access_history r)(f := None),
       evictable := (evictable r)(f := None),
       curr_size := curr_size r - 1\<rparr>"

definition Evict :: "LRUKReplacer \<Rightarrow> error + frame_id_t option \<times> LRUKReplacer" where
  "Evict r =
     (if curr_size r = 0 then Inr (None, r)
      else
        case Evict_loop (node_store r) (evict_vars_init, r) of
          Inl e \<Rightarrow> Inl e
        | Inr (v, r') \<Rightarrow>
            if evict_frame v = - 1 then Inr (None, r')
            else Inr (Some (evict_frame v), erase_frame (evict_frame v) r'))"

subsection \<open>RecordAccess, SetEvictable, Remove, Size\<close>

text \<open>
  \<^verbatim>\<open>static_cast<size_t>(frame_id) >= replacer_size_\<close> is only evaluated for
  \<^verbatim>\<open>frame_id >= 0\<close>, where the cast keeps the value.
\<close>

definition invalid_frame_id :: "frame_id_t \<Rightarrow> LRUKReplacer \<Rightarrow> bool" where
  "invalid_frame_id f r = (f < 0 \<or> unat (replacer_size r) \<le> nat f)"

definition RecordAccess :: "frame_id_t \<Rightarrow> LRUKReplacer \<Rightarrow> error + LRUKReplacer" where
  "RecordAccess f r =
     (if invalid_frame_id f r then Inl InvalidFrame
      else
        let r1 = r\<lparr>current_timestamp := current_timestamp r + 1\<rparr>;
            r2 = (if f \<notin> set (node_store r1)
                  then r1\<lparr>node_store := node_store r1 @ [f],
                          access_history := (access_history r1)(f \<mapsto> []),
                          evictable := (evictable r1)(f \<mapsto> False)\<rparr>
                  else r1);
            (h, r3) = access_history_at f r2;
            h' = h @ [current_timestamp r3]
        in Inr (r3\<lparr>access_history :=
                      (access_history r3)(f \<mapsto> (if unat (k_dist r3) < length h' then tl h' else h'))\<rparr>))"

definition SetEvictable :: "frame_id_t \<Rightarrow> bool \<Rightarrow> LRUKReplacer \<Rightarrow> error + LRUKReplacer" where
  "SetEvictable f set_evictable r =
     (if invalid_frame_id f r then Inl InvalidFrame
      else if f \<notin> set (node_store r) then Inr r
      else
        let (current_evictable, r1) = evictable_at f r in
        if current_evictable \<and> \<not> set_evictable
        then Inr (r1\<lparr>evictable := (evictable r1)(f \<mapsto> False), curr_size := curr_size r1 - 1\<rparr>)
        else if \<not> current_evictable \<and> set_evictable
        then Inr (r1\<lparr>evictable := (evictable r1)(f \<mapsto> True), curr_size := curr_size r1 + 1\<rparr>)
        else Inr r1)"

definition Remove :: "frame_id_t \<Rightarrow> LRUKReplacer \<Rightarrow> error + LRUKReplacer" where
  "Remove f r =
     (if f \<notin> set (node_store r) then Inr r
      else
        let (ev, r1) = evictable_at f r in
        if \<not> ev then Inl NonEvictable else Inr (erase_frame f r1))"

definition Size :: "LRUKReplacer \<Rightarrow> size_t" where
  "Size r = curr_size r"

section \<open>Frames, the disk channel and the buffer pool manager (buffer\_pool\_manager.cpp)\<close>

type_synonym byte = "8 word"

text \<open>
  \<^verbatim>\<open>FrameHeader\<close>. The \<^verbatim>\<open>std::shared_mutex rwlatch_\<close> is the number of shared holders
  and whether it is held exclusively.
\<close>

record FrameHeader =
  frame_id :: frame_id_t
  data :: "byte list"
  pin_count :: size_t
  is_dirty :: bool
  rw_readers :: nat
  rw_writer :: bool

definition Reset :: "FrameHeader \<Rightarrow> FrameHeader" where
  "Reset fh = fh\<lparr>data := replicate (length (data fh)) 0, pin_count := 0, is_dirty := False\<rparr>"

text \<open>
  \<^verbatim>\<open>FrameHeader(frame_id)\<close>; the constant \<^verbatim>\<open>BUSTUB_PAGE_SIZE\<close> is not defined in the
  sources and is a parameter here.
\<close>

definition FrameHeader_new :: "nat \<Rightarrow> frame_id_t \<Rightarrow> FrameHeader" where
  "FrameHeader_new BUSTUB_PAGE_SIZE fid =
     Reset \<lparr>frame_id = fid, data = replicate BUSTUB_PAGE_SIZE 0, pin_count = 0,
            is_dirty = False, rw_readers = 0, rw_writer = False\<rparr>"

text \<open>
  \<^verbatim>\<open>DiskRequest\<close>. \<^verbatim>\<open>data_\<close> points into the buffer of a frame or is null (\<open>None\<close>), which
  is what \<^verbatim>\<open>DiskRequest req{}\<close> leaves it as; the callback is the completion that the
  caller waits for.
\<close>

record DiskRequest =
  is_write :: bool
  data_ptr :: "frame_id_t option"
  req_page_id :: page_id_t
  is_deallocate :: bool

text \<open>\<^verbatim>\<open>DiskRequest req{}\<close>: every member value-initialised.\<close>

definition DiskRequest_init :: DiskRequest where
  "DiskRequest_init = \<lparr>is_write = False, data_ptr = None, req_page_id = 0, is_deallocate = False\<rparr>"

text \<open>
  The disk channel. \<open>disk_pages\<close> is the on-disk image of every page; \<open>request_log\<close> lists
  the requests in the order they were scheduled, each with the answer to: did the thread
  that scheduled it own the pool latch while it waited for the completion?
\<close>

record DiskScheduler =
  disk_pages :: "page_id_t \<Rightarrow> byte list"
  request_log :: "(DiskRequest \<times> bool) list"

text \<open>
  \<^verbatim>\<open>BufferPoolManager\<close>. \<open>bpm_latch\<close> says whether the running thread owns the
  \<^verbatim>\<open>std::mutex\<close> behind \<^verbatim>\<open>bpm_latch_\<close>. \<^verbatim>\<open>page_table_\<close> is an \<^verbatim>\<open>std::unordered_map\<close>; it is
  an association list in iteration order because \<^verbatim>\<open>FindPageIdByFrame\<close> and the
  flush-all loops iterate over it.
\<close>

record BufferPoolManager =
  num_frames :: size_t
  next_page_id :: page_id_t
  bpm_latch :: bool
  frames :: "FrameHeader list"
  page_table :: "(page_id_t \<times> frame_id_t) list"
  free_frames :: "frame_id_t list"
  replacer :: LRUKReplacer
  disk_scheduler :: DiskScheduler

definition BufferPoolManager_new ::
  "nat \<Rightarrow> size_t \<Rightarrow> (page_id_t \<Rightarrow> byte list) \<Rightarrow> size_t \<Rightarrow> BufferPoolManager" where
  "BufferPoolManager_new BUSTUB_PAGE_SIZE n disk_manager k =
     \<lparr>num_frames = n, next_page_id = 0, bpm_latch = False,
      frames = map (\<lambda>i. FrameHeader_new BUSTUB_PAGE_SIZE (int i)) [0..<unat n],
      page_table = [],
      free_frames = map int [0..<unat n],
      replacer = LRUKReplacer_new n k,
      disk_scheduler = \<lparr>disk_pages = disk_manager, request_log = []\<rparr>\<rparr>"

definition BufferPoolManager_Size :: "BufferPoolManager \<Rightarrow> size_t" where
  "BufferPoolManager_Size s = num_frames s"

text \<open>\<^verbatim>\<open>fetch_add(1)\<close> on the atomic 32-bit signed counter wraps around.\<close>

definition NewPage :: "BufferPoolManager \<Rightarrow> page_id_t \<times> BufferPoolManager" where
  "NewPage s =
     (next_page_id s,
      s\<lparr>next_page_id := (if next_page_id s = 2 ^ 31 - 1 then - (2 ^ 31) else next_page_id s + 1)\<rparr>)"

subsection \<open>Latches\<close>

text \<open>
  \<^verbatim>\<open>std::mutex::lock\<close> on the pool latch. The mutex is not recursive: locking it again
  from the thread that owns it never returns.
\<close>

definition bpm_lock :: "BufferPoolManager \<Rightarrow> error + BufferPoolManager" where
  "bpm_lock s = (if bpm_latch s then Inl Deadlock else Inr (s\<lparr>bpm_latch := True\<rparr>))"

definition bpm_unlock :: "BufferPoolManager \<Rightarrow> BufferPoolManager" where
  "bpm_unlock s = s\<lparr>bpm_latch := False\<rparr>"

definition frame_at :: "frame_id_t \<Rightarrow> BufferPoolManager \<Rightarrow> error + FrameHeader" where
  "frame_at fid s =
     (if 0 \<le> fid \<and> nat fid < length (frames s) then Inr (frames s ! nat fid)
      else Inl BadFrameIndex)"

definition frame_put :: "frame_id_t \<Rightarrow> FrameHeader \<Rightarrow> BufferPoolManager \<Rightarrow> BufferPoolManager" where
  "frame_put fid fh s = s\<lparr>frames := (frames s)[nat fid := fh]\<rparr>"

text \<open>The four operations of \<^verbatim>\<open>std::shared_mutex\<close> that the sources call on a frame.\<close>

definition rwlatch_lock_shared :: "FrameHeader \<Rightarrow> error + FrameHeader" where
  "rwlatch_lock_shared fh =
     (if rw_writer fh then Inl Blocked else Inr (fh\<lparr>rw_readers := rw_readers fh + 1\<rparr>))"

definition rwlatch_unlock_shared :: "FrameHeader \<Rightarrow> error + FrameHeader" where
  "rwlatch_unlock_shared fh =
     (if rw_readers fh = 0 then Inl NotLocked else Inr (fh\<lparr>rw_readers := rw_readers fh - 1\<rparr>))"

definition rwlatch_lock :: "FrameHeader \<Rightarrow> error + FrameHeader" where
  "rwlatch_lock fh =
     (if rw_writer fh \<or> rw_readers fh \<noteq> 0 then Inl Blocked else Inr (fh\<lparr>rw_writer := True\<rparr>))"

definition rwlatch_unlock :: "FrameHeader \<Rightarrow> error + FrameHeader" where
  "rwlatch_unlock fh =
     (if \<not> rw_writer fh then Inl NotLocked else Inr (fh\<lparr>rw_writer := False\<rparr>))"

subsection \<open>The disk channel (disk\_scheduler.cpp)\<close>

text \<open>
  Modelled from the spec: \<^verbatim>\<open>DiskManager\<close> (\<^verbatim>\<open>WritePage\<close>, \<^verbatim>\<open>ReadPage\<close>) is not among the
  sources. Following the spec, a write persists the buffer as the page's image and a read
  populates the buffer with the on-disk image. What \<^verbatim>\<open>ReadPage\<close> does with a null buffer
  is not described; here it transfers nothing.
\<close>

definition DiskManager_WritePage ::
  "page_id_t \<Rightarrow> byte list \<Rightarrow> (page_id_t \<Rightarrow> byte list) \<Rightarrow> (page_id_t \<Rightarrow> byte list)" where
  "DiskManager_WritePage pid bytes pages = pages(pid := bytes)"

definition DiskManager_ReadPage :: "page_id_t \<Rightarrow> (page_id_t \<Rightarrow> byte list) \<Rightarrow> byte list" where
  "DiskManager_ReadPage pid pages = pages pid"

text \<open>
  Every caller in the sources schedules a request and at once waits for its completion
  (\<^verbatim>\<open>Schedule(std::move(req)); (void)fut.get();\<close>), so the pair is one step: the request is
  logged together with whether the caller owns the pool latch during the wait, and the
  worker (\<^verbatim>\<open>StartWorkerThread\<close>) serves it. The worker looks at \<^verbatim>\<open>is_write_\<close> only: a
  request that is not a write is served by \<^verbatim>\<open>ReadPage\<close>, whatever \<^verbatim>\<open>is_deallocate_\<close> says.
\<close>

definition Schedule_and_wait :: "DiskRequest \<Rightarrow> BufferPoolManager \<Rightarrow> error + BufferPoolManager" where
  "Schedule_and_wait req s =
     (let d = disk_scheduler s;
          d1 = d\<lparr>request_log := request_log d @ [(req, bpm_latch s)]\<rparr> in
      if is_write req then
        (case data_ptr req of
           None \<Rightarrow> Inl NullBuffer
         | Some fid \<Rightarrow>
             and_then (frame_at fid s) (\<lambda>fh.
               Inr (s\<lparr>disk_scheduler :=
                        d1\<lparr>disk_pages := DiskManager_WritePage (req_page_id req) (data fh) (disk_pages d1)\<rparr>\<rparr>)))
      else
        (case data_ptr req of
           None \<Rightarrow> Inr (s\<lparr>disk_scheduler := d1\<rparr>)
         | Some fid \<Rightarrow>
             and_then (frame_at fid s) (\<lambda>fh.
               Inr (frame_put fid (fh\<lparr>data := DiskManager_ReadPage (req_page_id req) (disk_pages d1)\<rparr>)
                      (s\<lparr>disk_scheduler := d1\<rparr>)))))"

text \<open>The write request that the flush paths and the write-back of a victim build.\<close>

definition write_request :: "page_id_t \<Rightarrow> frame_id_t \<Rightarrow> DiskRequest" where
  "write_request pid fid = DiskRequest_init\<lparr>req_page_id := pid, data_ptr := Some fid, is_write := True\<rparr>"

definition read_request :: "page_id_t \<Rightarrow> frame_id_t \<Rightarrow> DiskRequest" where
  "read_request pid fid = DiskRequest_init\<lparr>req_page_id := pid, data_ptr := Some fid, is_write := False\<rparr>"

definition deallocate_request :: "page_id_t \<Rightarrow> DiskRequest" where
  "deallocate_request pid = DiskRequest_init\<lparr>req_page_id := pid, is_write := False, is_deallocate := True\<rparr>"

text \<open>
  The block \<^verbatim>\<open>if (fh->is_dirty_) { ... Schedule ...; fut.get(); fh->is_dirty_ = false; }\<close>
  that the flush paths share after their test of the dirty flag: write the frame's buffer
  as page \<open>pid\<close>, then clear the flag.
\<close>

definition write_and_clean :: "page_id_t \<Rightarrow> frame_id_t \<Rightarrow> BufferPoolManager \<Rightarrow> error + BufferPoolManager" where
  "write_and_clean pid fid s =
     and_then (Schedule_and_wait (write_request pid fid) s) (\<lambda>s1.
     and_then (frame_at fid s1) (\<lambda>fh.
       Inr (frame_put fid (fh\<lparr>is_dirty := False\<rparr>) s1)))"

section \<open>Page guards (page\_guard.cpp)\<close>

text \<open>
  \<^verbatim>\<open>ReadPageGuard\<close> and \<^verbatim>\<open>WritePageGuard\<close> have the same data members. \<^verbatim>\<open>frame_\<close> is a
  shared pointer to one of the manager's frames (its index; \<open>None\<close> once moved from or
  reset); \<^verbatim>\<open>replacer_\<close>, \<^verbatim>\<open>bpm_latch_\<close> and \<^verbatim>\<open>disk_scheduler_\<close> point to the manager's own
  replacer, latch and disk scheduler, which the guard's member functions reach through
  the manager state they are given.
\<close>

record PageGuard =
  page_id :: page_id_t
  frame :: "frame_id_t option"
  is_valid :: bool

type_synonym ReadPageGuard = PageGuard
type_synonym WritePageGuard = PageGuard

text \<open>
  Modelled from the spec: the constant \<^verbatim>\<open>INVALID_PAGE_ID\<close> and the macro \<^verbatim>\<open>BUSTUB_ENSURE\<close>
  are not defined in the sources. The spec has a sentinel page id that denotes "invalid"
  (its value is never inspected here) and makes a failed check a precondition violation
  that aborts the process.
\<close>

definition INVALID_PAGE_ID :: page_id_t where
  "INVALID_PAGE_ID = - 1"

definition BUSTUB_ENSURE :: "bool \<Rightarrow> error + unit" where
  "BUSTUB_ENSURE c = (if c then Inr () else Inl EnsureFailed)"

text \<open>Dereferencing \<^verbatim>\<open>frame_\<close>.\<close>

definition guard_frame :: "PageGuard \<Rightarrow> BufferPoolManager \<Rightarrow> error + frame_id_t \<times> FrameHeader" where
  "guard_frame g s =
     (case frame g of
        None \<Rightarrow> Inl BadFrameIndex
      | Some fid \<Rightarrow> and_then (frame_at fid s) (\<lambda>fh. Inr (fid, fh)))"

text \<open>
  The block \<^verbatim>\<open>{ std::scoped_lock lk(*bpm_latch_); replacer_->SetEvictable(fid, flag); }\<close>
  of the guards' constructors and \<^verbatim>\<open>Drop\<close>.
\<close>

definition locked_SetEvictable ::
  "frame_id_t \<Rightarrow> bool \<Rightarrow> BufferPoolManager \<Rightarrow> error + BufferPoolManager" where
  "locked_SetEvictable fid flag s =
     and_then (bpm_lock s) (\<lambda>s1.
     and_then (SetEvictable fid flag (replacer s1)) (\<lambda>r.
       Inr (bpm_unlock (s1\<lparr>replacer := r\<rparr>))))"

subsection \<open>Constructors\<close>

definition ReadPageGuard_ctor ::
  "page_id_t \<Rightarrow> frame_id_t \<Rightarrow> BufferPoolManager \<Rightarrow> error + ReadPageGuard \<times> BufferPoolManager" where
  "ReadPageGuard_ctor pid fid s =
     and_then (frame_at fid s) (\<lambda>fh.
     and_then (rwlatch_lock_shared fh) (\<lambda>fh1.
       let fh2 = fh1\<lparr>pin_count := pin_count fh1 + 1\<rparr> in
       and_then (locked_SetEvictable (frame_id fh2) False (frame_put fid fh2 s)) (\<lambda>s1.
         Inr (\<lparr>page_id = pid, frame = Some fid, is_valid = True\<rparr>, s1))))"

definition WritePageGuard_ctor ::
  "page_id_t \<Rightarrow> frame_id_t \<Rightarrow> BufferPoolManager \<Rightarrow> error + WritePageGuard \<times> BufferPoolManager" where
  "WritePageGuard_ctor pid fid s =
     and_then (frame_at fid s) (\<lambda>fh.
     and_then (rwlatch_lock fh) (\<lambda>fh1.
       let fh2 = fh1\<lparr>pin_count := pin_count fh1 + 1\<rparr> in
       and_then (locked_SetEvictable (frame_id fh2) False (frame_put fid fh2 s)) (\<lambda>s1.
         Inr (\<lparr>page_id = pid, frame = Some fid, is_valid = True\<rparr>,
              frame_put fid (fh2\<lparr>is_dirty := True\<rparr>) s1))))"

text \<open>
  The move constructor: the new guard takes over the members of \<open>that\<close>, and \<open>that\<close> is
  left inert. The result is (new guard, \<open>that\<close> afterwards).
\<close>

definition PageGuard_move :: "PageGuard \<Rightarrow> PageGuard \<times> PageGuard" where
  "PageGuard_move that =
     (\<lparr>page_id = page_id that, frame = frame that, is_valid = is_valid that\<rparr>,
      that\<lparr>frame := None, is_valid := False, page_id := INVALID_PAGE_ID\<rparr>)"

subsection \<open>Observers\<close>

text \<open>
  \<^verbatim>\<open>GetPageId\<close>, \<^verbatim>\<open>GetData\<close> and \<^verbatim>\<open>IsDirty\<close> have the same body in both classes. \<open>GetData\<close>
  returns the bytes that the returned pointer shows.
\<close>

definition GetPageId :: "PageGuard \<Rightarrow> error + page_id_t" where
  "GetPageId g = and_then (BUSTUB_ENSURE (is_valid g)) (\<lambda>_. Inr (page_id g))"

definition GetData :: "PageGuard \<Rightarrow> BufferPoolManager \<Rightarrow> error + byte list" where
  "GetData g s =
     and_then (BUSTUB_ENSURE (is_valid g)) (\<lambda>_.
     and_then (guard_frame g s) (\<lambda>(fid, fh). Inr (data fh)))"

text \<open>
  \<^verbatim>\<open>WritePageGuard::GetDataMut\<close> returns the address of the frame's buffer: the guard's
  frame, through which the caller then stores bytes (\<open>store_bytes\<close>: the caller's write of
  a whole page image through that pointer).
\<close>

definition GetDataMut :: "WritePageGuard \<Rightarrow> BufferPoolManager \<Rightarrow> error + frame_id_t" where
  "GetDataMut g s =
     and_then (BUSTUB_ENSURE (is_valid g)) (\<lambda>_.
     and_then (guard_frame g s) (\<lambda>(fid, fh). Inr fid))"

definition store_bytes :: "frame_id_t \<Rightarrow> byte list \<Rightarrow> BufferPoolManager \<Rightarrow> error + BufferPoolManager" where
  "store_bytes fid bytes s =
     and_then (frame_at fid s) (\<lambda>fh.
       if length bytes = length (data fh) then Inr (frame_put fid (fh\<lparr>data := bytes\<rparr>) s)
       else Inl BadFrameIndex)"

definition IsDirty :: "PageGuard \<Rightarrow> BufferPoolManager \<Rightarrow> error + bool" where
  "IsDirty g s =
     and_then (BUSTUB_ENSURE (is_valid g)) (\<lambda>_.
     and_then (guard_frame g s) (\<lambda>(fid, fh). Inr (is_dirty fh)))"

text \<open>\<^verbatim>\<open>ReadPageGuard::Flush\<close> and \<^verbatim>\<open>WritePageGuard::Flush\<close> have the same body.\<close>

definition Flush :: "PageGuard \<Rightarrow> BufferPoolManager \<Rightarrow> error + BufferPoolManager" where
  "Flush g s =
     and_then (BUSTUB_ENSURE (is_valid g)) (\<lambda>_.
     and_then (guard_frame g s) (\<lambda>(fid, fh).
       if \<not> is_dirty fh then Inr s else write_and_clean (page_id g) fid s))"

subsection \<open>Drop and move assignment\<close>

text \<open>What both \<^verbatim>\<open>Drop\<close>s end with: the guard is invalidated and its pointers reset.\<close>

definition invalidate :: "PageGuard \<Rightarrow> PageGuard" where
  "invalidate g = g\<lparr>is_valid := False, page_id := INVALID_PAGE_ID, frame := None\<rparr>"

definition ReadPageGuard_Drop ::
  "ReadPageGuard \<Rightarrow> BufferPoolManager \<Rightarrow> error + ReadPageGuard \<times> BufferPoolManager" where
  "ReadPageGuard_Drop g s =
     (if \<not> is_valid g then Inr (g, s)
      else
        and_then (guard_frame g s) (\<lambda>(fid, fh).
          let prev = pin_count fh in
          and_then (rwlatch_unlock_shared (fh\<lparr>pin_count := pin_count fh - 1\<rparr>)) (\<lambda>fh1.
          and_then (if prev = 1 then locked_SetEvictable (frame_id fh1) True (frame_put fid fh1 s)
                    else Inr (frame_put fid fh1 s)) (\<lambda>s1.
            Inr (invalidate g, s1)))))"

definition WritePageGuard_Drop ::
  "WritePageGuard \<Rightarrow> BufferPoolManager \<Rightarrow> error + WritePageGuard \<times> BufferPoolManager" where
  "WritePageGuard_Drop g s =
     (if \<not> is_valid g then Inr (g, s)
      else
        and_then (guard_frame g s) (\<lambda>(fid, fh).
          let prev = pin_count fh in
          and_then (rwlatch_unlock (fh\<lparr>pin_count := pin_count fh - 1\<rparr>)) (\<lambda>fh1.
          and_then (if prev = 1 then locked_SetEvictable (frame_id fh1) True (frame_put fid fh1 s)
                    else Inr (frame_put fid fh1 s)) (\<lambda>s1.
            Inr (invalidate g, s1)))))"

text \<open>
  Move assignment \<^verbatim>\<open>*this = std::move(that)\<close>. Whether \<^verbatim>\<open>this == &that\<close> is a question
  about the two objects' addresses, so the guards live in a store \<open>G\<close> from addresses to
  guard objects and the operator takes the two addresses. \<open>move_into\<close> is the member-wise
  take-over after \<^verbatim>\<open>Drop()\<close>.
\<close>

definition move_into :: "nat \<Rightarrow> nat \<Rightarrow> (nat \<Rightarrow> PageGuard) \<Rightarrow> (nat \<Rightarrow> PageGuard)" where
  "move_into this that G =
     (let G1 = G(this := \<lparr>page_id = page_id (G that), frame = frame (G that),
                          is_valid = is_valid (G that)\<rparr>)
      in G1(that := (G1 that)\<lparr>frame := None, is_valid := False, page_id := INVALID_PAGE_ID\<rparr>))"

definition ReadPageGuard_move_assign ::
  "nat \<Rightarrow> nat \<Rightarrow> (nat \<Rightarrow> ReadPageGuard) \<times> BufferPoolManager
     \<Rightarrow> error + (nat \<Rightarrow> ReadPageGuard) \<times> BufferPoolManager" where
  "ReadPageGuard_move_assign this that Gs =
     (let (G, s) = Gs in
      if this = that then Inr (G, s)
      else
        and_then (ReadPageGuard_Drop (G this) s) (\<lambda>(g', s1).
          Inr (move_into this that (G(this := g')), s1)))"

definition WritePageGuard_move_assign ::
  "nat \<Rightarrow> nat \<Rightarrow> (nat \<Rightarrow> WritePageGuard) \<times> BufferPoolManager
     \<Rightarrow> error + (nat \<Rightarrow> WritePageGuard) \<times> BufferPoolManager" where
  "WritePageGuard_move_assign this that Gs =
     (let (G, s) = Gs in
      if this = that then Inr (G, s)
      else
        and_then (WritePageGuard_Drop (G this) s) (\<lambda>(g', s1).
          Inr (move_into this that (G(this := g')), s1)))"

section \<open>Operations of the buffer pool manager\<close>

subsection \<open>DeletePage\<close>

definition DeletePage :: "page_id_t \<Rightarrow> BufferPoolManager \<Rightarrow> error + bool \<times> BufferPoolManager" where
  "DeletePage pid s =
     and_then (bpm_lock s) (\<lambda>s1.
       case map_of (page_table s1) pid of
         Some fid \<Rightarrow>
           and_then (frame_at fid s1) (\<lambda>fh.
             if 0 < pin_count fh then Inr (False, bpm_unlock s1)
             else
               and_then (SetEvictable fid False (replacer s1)) (\<lambda>r.
                 let s2 = s1\<lparr>page_table := AList.delete pid (page_table s1), replacer := r\<rparr>;
                     s3 = frame_put fid (Reset fh) s2;
                     s4 = s3\<lparr>free_frames := free_frames s3 @ [fid]\<rparr>
                 in and_then (Schedule_and_wait (deallocate_request pid) s4) (\<lambda>s5.
                      Inr (True, bpm_unlock s5))))
       | None \<Rightarrow>
           and_then (Schedule_and_wait (deallocate_request pid) s1) (\<lambda>s5.
             Inr (True, bpm_unlock s5)))"

subsection \<open>CheckedWritePage and CheckedReadPage\<close>

definition FindPageIdByFrame :: "(page_id_t \<times> frame_id_t) list \<Rightarrow> frame_id_t \<Rightarrow> page_id_t option" where
  "FindPageIdByFrame pt fid = map_option fst (find (\<lambda>kv. snd kv = fid) pt)"

text \<open>
  The two functions share their miss path word for word. \<open>write_back_victim\<close> is the
  block under \<^verbatim>\<open>FindPageIdByFrame\<close>: write the victim's page back if the frame is dirty,
  then erase its mapping.
\<close>

definition write_back_victim :: "frame_id_t \<Rightarrow> BufferPoolManager \<Rightarrow> error + BufferPoolManager" where
  "write_back_victim use_fid s =
     (case FindPageIdByFrame (page_table s) use_fid of
        None \<Rightarrow> Inr s
      | Some victim_pid \<Rightarrow>
          and_then (frame_at use_fid s) (\<lambda>fh.
          and_then (if is_dirty fh then write_and_clean victim_pid use_fid s else Inr s) (\<lambda>s1.
            Inr (s1\<lparr>page_table := AList.delete victim_pid (page_table s1)\<rparr>))))"

text \<open>
  Choosing \<^verbatim>\<open>use_fid\<close>: the front of the free list, else the replacer's victim; \<open>None\<close>
  is the \<^verbatim>\<open>return std::nullopt\<close>.
\<close>

definition acquire_frame :: "BufferPoolManager \<Rightarrow> error + frame_id_t option \<times> BufferPoolManager" where
  "acquire_frame s =
     (case free_frames s of
        f # fs \<Rightarrow> Inr (Some f, s\<lparr>free_frames := fs\<rparr>)
      | [] \<Rightarrow>
          and_then (Evict (replacer s)) (\<lambda>(victim_opt, r).
            case victim_opt of
              None \<Rightarrow> Inr (None, s\<lparr>replacer := r\<rparr>)
            | Some use_fid \<Rightarrow>
                and_then (write_back_victim use_fid (s\<lparr>replacer := r\<rparr>)) (\<lambda>s1.
                  Inr (Some use_fid, s1))))"

text \<open>
  From \<^verbatim>\<open>fh->Reset()\<close> to \<^verbatim>\<open>replacer_->SetEvictable(use_fid, false)\<close>: reset the frame,
  read the page in, publish the mapping, record the access, mark non-evictable.
\<close>

definition load_page :: "page_id_t \<Rightarrow> frame_id_t \<Rightarrow> BufferPoolManager \<Rightarrow> error + BufferPoolManager" where
  "load_page pid use_fid s =
     and_then (frame_at use_fid s) (\<lambda>fh.
     and_then (Schedule_and_wait (read_request pid use_fid) (frame_put use_fid (Reset fh) s)) (\<lambda>s1.
       let s2 = s1\<lparr>page_table := AList.update pid use_fid (page_table s1)\<rparr> in
       and_then (RecordAccess use_fid (replacer s2)) (\<lambda>r1.
       and_then (SetEvictable use_fid False r1) (\<lambda>r2.
         Inr (s2\<lparr>replacer := r2\<rparr>)))))"

definition CheckedWritePage ::
  "page_id_t \<Rightarrow> BufferPoolManager \<Rightarrow> error + WritePageGuard option \<times> BufferPoolManager" where
  "CheckedWritePage pid s =
     and_then (bpm_lock s) (\<lambda>s1.
       case map_of (page_table s1) pid of
         Some fid \<Rightarrow>
           and_then (RecordAccess fid (replacer s1)) (\<lambda>r.
           and_then (WritePageGuard_ctor pid fid (s1\<lparr>replacer := r\<rparr>)) (\<lambda>(guard, s2).
             Inr (Some guard, bpm_unlock s2)))
       | None \<Rightarrow>
           and_then (acquire_frame s1) (\<lambda>(use_fid_opt, s2).
             case use_fid_opt of
               None \<Rightarrow> Inr (None, bpm_unlock s2)
             | Some use_fid \<Rightarrow>
                 and_then (load_page pid use_fid s2) (\<lambda>s3.
                 and_then (WritePageGuard_ctor pid use_fid s3) (\<lambda>(guard, s4).
                   Inr (Some guard, bpm_unlock s4)))))"

definition CheckedReadPage ::
  "page_id_t \<Rightarrow> BufferPoolManager \<Rightarrow> error + ReadPageGuard option \<times> BufferPoolManager" where
  "CheckedReadPage pid s =
     and_then (bpm_lock s) (\<lambda>s1.
       case map_of (page_table s1) pid of
         Some fid \<Rightarrow>
           and_then (RecordAccess fid (replacer s1)) (\<lambda>r.
           and_then (ReadPageGuard_ctor pid fid (s1\<lparr>replacer := r\<rparr>)) (\<lambda>(guard, s2).
             Inr (Some guard, bpm_unlock s2)))
       | None \<Rightarrow>
           and_then (acquire_frame s1) (\<lambda>(use_fid_opt, s2).
             case use_fid_opt of
               None \<Rightarrow> Inr (None, bpm_unlock s2)
             | Some use_fid \<Rightarrow>
                 and_then (load_page pid use_fid s2) (\<lambda>s3.
                 and_then (ReadPageGuard_ctor pid use_fid s3) (\<lambda>(guard, s4).
                   Inr (Some guard, bpm_unlock s4)))))"

definition WritePage :: "page_id_t \<Rightarrow> BufferPoolManager \<Rightarrow> error + WritePageGuard \<times> BufferPoolManager" where
  "WritePage pid s =
     and_then (CheckedWritePage pid s) (\<lambda>(guard_opt, s1).
       case guard_opt of None \<Rightarrow> Inl Aborted | Some guard \<Rightarrow> Inr (guard, s1))"

definition ReadPage :: "page_id_t \<Rightarrow> BufferPoolManager \<Rightarrow> error + ReadPageGuard \<times> BufferPoolManager" where
  "ReadPage pid s =
     and_then (CheckedReadPage pid s) (\<lambda>(guard_opt, s1).
       case guard_opt of None \<Rightarrow> Inl Aborted | Some guard \<Rightarrow> Inr (guard, s1))"

subsection \<open>Flushing\<close>

definition FlushPageUnsafe :: "page_id_t \<Rightarrow> BufferPoolManager \<Rightarrow> error + bool \<times> BufferPoolManager" where
  "FlushPageUnsafe pid s =
     and_then (bpm_lock s) (\<lambda>s1.
       case map_of (page_table s1) pid of
         None \<Rightarrow> Inr (False, bpm_unlock s1)
       | Some fid \<Rightarrow>
           and_then (frame_at fid s1) (\<lambda>fh.
             if \<not> is_dirty fh then Inr (True, bpm_unlock s1)
             else and_then (write_and_clean pid fid s1) (\<lambda>s2. Inr (True, bpm_unlock s2))))"

text \<open>
  What \<^verbatim>\<open>FlushPage\<close> and each iteration of \<^verbatim>\<open>FlushAllPages\<close> do with a frame once the pool
  latch is released: take the frame latch in write mode, write the page if dirty, release
  the latch (the \<^verbatim>\<open>std::unique_lock\<close> goes out of scope).
\<close>

definition flush_under_frame_latch ::
  "page_id_t \<Rightarrow> frame_id_t \<Rightarrow> BufferPoolManager \<Rightarrow> error + BufferPoolManager" where
  "flush_under_frame_latch pid fid s =
     and_then (frame_at fid s) (\<lambda>fh.
     and_then (rwlatch_lock fh) (\<lambda>fh1.
     and_then (if \<not> is_dirty fh1 then Inr (frame_put fid fh1 s)
               else write_and_clean pid fid (frame_put fid fh1 s)) (\<lambda>s1.
     and_then (frame_at fid s1) (\<lambda>fh2.
     and_then (rwlatch_unlock fh2) (\<lambda>fh3.
       Inr (frame_put fid fh3 s1))))))"

definition FlushPage :: "page_id_t \<Rightarrow> BufferPoolManager \<Rightarrow> error + bool \<times> BufferPoolManager" where
  "FlushPage pid s =
     and_then (bpm_lock s) (\<lambda>s1.
       case map_of (page_table s1) pid of
         None \<Rightarrow> Inr (False, bpm_unlock s1)
       | Some fid \<Rightarrow>
           and_then (frame_at fid s1) (\<lambda>_.
           and_then (flush_under_frame_latch pid fid (bpm_unlock s1)) (\<lambda>s2.
             Inr (True, s2))))"

fun FlushAllPagesUnsafe_loop ::
  "(page_id_t \<times> frame_id_t) list \<Rightarrow> BufferPoolManager \<Rightarrow> error + BufferPoolManager" where
  "FlushAllPagesUnsafe_loop [] s = Inr s"
| "FlushAllPagesUnsafe_loop ((pid, fid) # kvs) s =
     and_then (frame_at fid s) (\<lambda>fh.
     and_then (if \<not> is_dirty fh then Inr s else write_and_clean pid fid s) (\<lambda>s1.
       FlushAllPagesUnsafe_loop kvs s1))"

definition FlushAllPagesUnsafe :: "BufferPoolManager \<Rightarrow> error + BufferPoolManager" where
  "FlushAllPagesUnsafe s =
     and_then (bpm_lock s) (\<lambda>s1.
     and_then (FlushAllPagesUnsafe_loop (page_table s1) s1) (\<lambda>s2.
       Inr (bpm_unlock s2)))"

text \<open>Collecting \<^verbatim>\<open>targets\<close> reads \<^verbatim>\<open>frames_[kv.second]\<close> for every entry.\<close>

fun collect_targets ::
  "(page_id_t \<times> frame_id_t) list \<Rightarrow> BufferPoolManager \<Rightarrow> error + (page_id_t \<times> frame_id_t) list" where
  "collect_targets [] s = Inr []"
| "collect_targets ((pid, fid) # kvs) s =
     and_then (frame_at fid s) (\<lambda>_.
     and_then (collect_targets kvs s) (\<lambda>ts. Inr ((pid, fid) # ts)))"

fun FlushAllPages_loop ::
  "(page_id_t \<times> frame_id_t) list \<Rightarrow> BufferPoolManager \<Rightarrow> error + BufferPoolManager" where
  "FlushAllPages_loop [] s = Inr s"
| "FlushAllPages_loop ((pid, fid) # ts) s =
     and_then (flush_under_frame_latch pid fid s) (\<lambda>s1. FlushAllPages_loop ts s1)"

definition FlushAllPages :: "BufferPoolManager \<Rightarrow> error + BufferPoolManager" where
  "FlushAllPages s =
     and_then (bpm_lock s) (\<lambda>s1.
     and_then (collect_targets (page_table s1) s1) (\<lambda>targets.
       FlushAllPages_loop targets (bpm_unlock s1)))"

definition GetPinCount :: "page_id_t \<Rightarrow> BufferPoolManager \<Rightarrow> error + size_t option \<times> BufferPoolManager" where
  "GetPinCount pid s =
     and_then (bpm_lock s) (\<lambda>s1.
       case map_of (page_table s1) pid of
         None \<Rightarrow> Inr (None, bpm_unlock s1)
       | Some fid \<Rightarrow> and_then (frame_at fid s1) (\<lambda>fh. Inr (Some (pin_count fh), bpm_unlock s1)))"

section \<open>Notions used to state the properties\<close>

subsection \<open>Backward k-distance\<close>

text \<open>
  The history recorded for a frame, the frames that are eligible as victims (tracked,
  evictable, with a non-empty history), the oldest retained timestamp, and the backward
  k-distance as the specification words it: \<open>\<infinity>\<close> with fewer than \<open>k\<close> recorded accesses,
  else the current time minus the oldest retained timestamp.
\<close>

definition history_of :: "LRUKReplacer \<Rightarrow> frame_id_t \<Rightarrow> size_t list" where
  "history_of r f = (case access_history r f of None \<Rightarrow> [] | Some h \<Rightarrow> h)"

definition candidate :: "LRUKReplacer \<Rightarrow> frame_id_t \<Rightarrow> bool" where
  "candidate r f = (evictable r f = Some True \<and> history_of r f \<noteq> [])"

definition candidates :: "LRUKReplacer \<Rightarrow> frame_id_t list" where
  "candidates r = filter (candidate r) (node_store r)"

definition oldest_timestamp_of :: "LRUKReplacer \<Rightarrow> frame_id_t \<Rightarrow> size_t" where
  "oldest_timestamp_of r f = (case history_of r f of [] \<Rightarrow> 0 | t # _ \<Rightarrow> t)"

definition fewer_than_k :: "LRUKReplacer \<Rightarrow> frame_id_t \<Rightarrow> bool" where
  "fewer_than_k r f = (length (history_of r f) < unat (k_dist r))"

definition finite_distance :: "LRUKReplacer \<Rightarrow> frame_id_t \<Rightarrow> size_t" where
  "finite_distance r f = current_timestamp r - oldest_timestamp_of r f"

definition k_distance :: "LRUKReplacer \<Rightarrow> frame_id_t \<Rightarrow> enat" where
  "k_distance r f =
     (if fewer_than_k r f then \<infinity> else enat (unat (finite_distance r f)))"

text \<open>
  The states that the replacer's operations produce, whatever \<open>k\<close> is: no frame is
  tracked twice, every tracked frame id is in range and has an entry in both maps, and
  \<^verbatim>\<open>curr_size_\<close> counts the evictable tracked frames.
\<close>

definition replacer_inv :: "LRUKReplacer \<Rightarrow> bool" where
  "replacer_inv r =
     (distinct (node_store r) \<and>
      (\<forall>f \<in> set (node_store r). \<not> invalid_frame_id f r \<and> access_history r f \<noteq> None \<and> evictable r f \<noteq> None) \<and>
      unat (curr_size r) = length (filter (\<lambda>f. evictable r f = Some True) (node_store r)))"

text \<open>
  The loop invariant of \<^verbatim>\<open>Evict\<close>: what the local variables say about the entries \<open>ps\<close>
  visited so far.
\<close>

definition vars_ok :: "LRUKReplacer \<Rightarrow> frame_id_t list \<Rightarrow> evict_vars \<Rightarrow> bool" where
  "vars_ok r ps v =
     ((evict_frame v = - 1 \<longleftrightarrow> (\<forall>p \<in> set ps. \<not> candidate r p)) \<and>
      (evict_frame v \<noteq> - 1 \<longrightarrow> evict_frame v \<in> set ps \<and> candidate r (evict_frame v)) \<and>
      (found_inf v \<longleftrightarrow> (\<exists>c \<in> set ps. candidate r c \<and> fewer_than_k r c)) \<and>
      (found_inf v \<longrightarrow> fewer_than_k r (evict_frame v) \<and>
          earliest_timestamp v = oldest_timestamp_of r (evict_frame v) \<and>
          (\<forall>c \<in> set ps. candidate r c \<and> fewer_than_k r c \<longrightarrow>
               earliest_timestamp v \<le> oldest_timestamp_of r c)) \<and>
      (\<not> found_inf v \<and> evict_frame v \<noteq> - 1 \<longrightarrow>
          max_backward_k_distance v = finite_distance r (evict_frame v) \<and>
          (\<forall>c \<in> set ps. candidate r c \<longrightarrow> finite_distance r c \<le> max_backward_k_distance v)))"


text \<open>
  A replacer with \<open>k = 2\<close>: frame 0 was accessed at times 1 and 4, frame 1 at time 2,
  frame 2 at time 3; all three are evictable.
\<close>

definition r_ex :: LRUKReplacer where
  "r_ex = \<lparr>node_store = [2, 0, 1],
      access_history = [0 \<mapsto> [1, 4], 1 \<mapsto> [2], 2 \<mapsto> [3]],
      evictable = [0 \<mapsto> True, 1 \<mapsto> True, 2 \<mapsto> True],
      current_timestamp = 4, curr_size = 3, replacer_size = 3, k_dist = 2\<rparr>"

text \<open>
  A replacer made with \<open>k = 0\<close>, after \<^verbatim>\<open>RecordAccess(0)\<close> and \<^verbatim>\<open>SetEvictable(0, true)\<close>:
  the timestamp that was pushed has been popped again, so frame 0 is tracked and evictable
  with an empty history.
\<close>

definition r_k0 :: LRUKReplacer where
  "r_k0 = \<lparr>node_store = [0], access_history = [0 \<mapsto> []], evictable = [0 \<mapsto> True],
      current_timestamp = 1, curr_size = 1, replacer_size = 2, k_dist = 0\<rparr>"

subsection \<open>Pool states\<close>

text \<open>
  \<open>pool_wf\<close>: every frame that the page table names is a frame of the pool and a frame
  id the replacer accepts. \<open>pinned_resident\<close>: the page is resident in a frame whose pin
  count is not zero. \<open>frame_to_free\<close>: the frame that holds the page, if any.
  \<open>latch_free\<close>: nobody holds the frame's reader-writer latch.
  \<open>written_back pid fid s\<close> is \<open>s\<close> after one write of frame \<open>fid\<close> as page \<open>pid\<close>: the
  request is logged, the disk image replaced, the dirty flag cleared.
  \<open>flush_result\<close> is what \<open>FlushPage\<close> returns. \<open>guard_target_ok\<close>: a frame for which a
  guard can be made, as the manager leaves it after \<^verbatim>\<open>RecordAccess\<close>: in the pool, with its
  own id, tracked by the replacer.
  \<open>s_ex\<close> is a pool of two frames with two-byte pages: page 7 is in frame 0, modified and
  unpinned; page 8 is in frame 1 under one read guard.
\<close>

definition pinned_resident :: "page_id_t \<Rightarrow> BufferPoolManager \<Rightarrow> bool" where
  "pinned_resident pid s =
     (case map_of (page_table s) pid of
        None \<Rightarrow> False
      | Some fid \<Rightarrow> 0 < pin_count (frames s ! nat fid))"

definition pool_wf :: "BufferPoolManager \<Rightarrow> bool" where
  "pool_wf s =
     (\<forall>(pid, fid) \<in> set (page_table s).
         0 \<le> fid \<and> nat fid < length (frames s) \<and> \<not> invalid_frame_id fid (replacer s))"

definition frame_to_free :: "page_id_t \<Rightarrow> BufferPoolManager \<Rightarrow> frame_id_t list" where
  "frame_to_free pid s = (case map_of (page_table s) pid of None \<Rightarrow> [] | Some fid \<Rightarrow> [fid])"

definition s_ex :: BufferPoolManager where
  "s_ex =
     \<lparr>num_frames = 2, next_page_id = 9, bpm_latch = False,
      frames =
        [\<lparr>frame_id = 0, data = [0xAB, 0xCD], pin_count = 0, is_dirty = True,
           rw_readers = 0, rw_writer = False\<rparr>,
         \<lparr>frame_id = 1, data = [0x11, 0x22], pin_count = 1, is_dirty = False,
           rw_readers = 1, rw_writer = False\<rparr>],
      page_table = [(7, 0), (8, 1)],
      free_frames = [],
      replacer =
        \<lparr>node_store = [0, 1], access_history = [0 \<mapsto> [1], 1 \<mapsto> [2]],
         evictable = [0 \<mapsto> True, 1 \<mapsto> False],
         current_timestamp = 2, curr_size = 1, replacer_size = 2, k_dist = 2\<rparr>,
      disk_scheduler =
        \<lparr>disk_pages = (\<lambda>_. [0, 0])(8 := [0x11, 0x22]),
         request_log = [(read_request 7 0, True), (read_request 8 1, True)]\<rparr>\<rparr>"

definition latch_free :: "FrameHeader \<Rightarrow> bool" where
  "latch_free fh = (\<not> rw_writer fh \<and> rw_readers fh = 0)"

definition resident_latch_free :: "page_id_t \<Rightarrow> BufferPoolManager \<Rightarrow> bool" where
  "resident_latch_free pid s =
     (case map_of (page_table s) pid of
        None \<Rightarrow> True
      | Some fid \<Rightarrow> latch_free (frames s ! nat fid))"

definition written_back :: "page_id_t \<Rightarrow> frame_id_t \<Rightarrow> BufferPoolManager \<Rightarrow> BufferPoolManager" where
  "written_back pid fid s =
     s\<lparr>frames := (frames s)[nat fid := (frames s ! nat fid)\<lparr>is_dirty := False\<rparr>],
       disk_scheduler :=
         \<lparr>disk_pages = (disk_pages (disk_scheduler s))(pid := data (frames s ! nat fid)),
          request_log = request_log (disk_scheduler s) @ [(write_request pid fid, bpm_latch s)]\<rparr>\<rparr>"

definition flush_result :: "page_id_t \<Rightarrow> BufferPoolManager \<Rightarrow> bool \<times> BufferPoolManager" where
  "flush_result pid s =
     (case map_of (page_table s) pid of
        None \<Rightarrow> (False, s)
      | Some fid \<Rightarrow>
          (True, if is_dirty (frames s ! nat fid) then written_back pid fid s else s))"

definition guard_target_ok :: "frame_id_t \<Rightarrow> BufferPoolManager \<Rightarrow> bool" where
  "guard_target_ok fid s =
     (0 \<le> fid \<and> nat fid < length (frames s) \<and> frame_id (frames s ! nat fid) = fid \<and>
      \<not> invalid_frame_id fid (replacer s) \<and> fid \<in> set (node_store (replacer s)) \<and>
      evictable (replacer s) fid \<noteq> None)"

text \<open>A read guard on page 8 of \<open>s_ex\<close>.\<close>

definition g_ex :: ReadPageGuard where
  "g_ex = \<lparr>page_id = 8, frame = Some 1, is_valid = True\<rparr>"

subsection \<open>Further example states\<close>

text \<open>
  \<open>G_ex\<close> is a store of guard objects: the read guard \<open>g_ex\<close> at address 0, inert guards
  elsewhere. \<open>s_new\<close> is a pool as the constructor leaves it: one frame, two-byte pages,
  \<open>k = 2\<close>. \<open>s_ex_deleted\<close> is \<open>s_ex\<close> after \<open>DeletePage 7\<close>.
\<close>

definition G_ex :: "nat \<Rightarrow> PageGuard" where
  "G_ex = (\<lambda>_. invalidate g_ex)(0 := g_ex)"

definition s_new :: BufferPoolManager where
  "s_new = BufferPoolManager_new 2 1 (\<lambda>_. [0x5A, 0x5B]) 2"

definition s_ex_deleted :: BufferPoolManager where
  "s_ex_deleted =
     s_ex\<lparr>frames := (frames s_ex)[0 := Reset (frames s_ex ! 0)],
           page_table := [(8, 1)], free_frames := [0],
           replacer := (replacer s_ex)\<lparr>evictable := [0 \<mapsto> False, 1 \<mapsto> False], curr_size := 0\<rparr>,
           disk_scheduler := (disk_scheduler s_ex)
             \<lparr>request_log := request_log (disk_scheduler s_ex) @ [(deallocate_request 7, True)]\<rparr>\<rparr>"

subsection \<open>Disk waits and the pool latch\<close>

text \<open>
  \<open>new_waits s s'\<close>: the requests that were scheduled and waited for between \<open>s\<close> and
  \<open>s'\<close>, each with whether the waiting thread owned the pool latch.
  \<open>log_grows b s s'\<close>: from \<open>s\<close> to \<open>s'\<close> the pool latch is as before and every new wait
  has the flag \<open>b\<close>.
\<close>

definition new_waits :: "BufferPoolManager \<Rightarrow> BufferPoolManager \<Rightarrow> (DiskRequest \<times> bool) list" where
  "new_waits s s' = drop (length (request_log (disk_scheduler s))) (request_log (disk_scheduler s'))"

definition waits_outside_pool_latch :: "BufferPoolManager \<Rightarrow> BufferPoolManager \<Rightarrow> bool" where
  "waits_outside_pool_latch s s' = list_all (\<lambda>e. \<not> snd e) (new_waits s s')"

definition waits_under_pool_latch :: "BufferPoolManager \<Rightarrow> BufferPoolManager \<Rightarrow> bool" where
  "waits_under_pool_latch s s' = list_all snd (new_waits s s')"

definition log_grows :: "bool \<Rightarrow> BufferPoolManager \<Rightarrow> BufferPoolManager \<Rightarrow> bool" where
  "log_grows b s s' =
     (bpm_latch s' = bpm_latch s \<and>
      (\<exists>new. request_log (disk_scheduler s') = request_log (disk_scheduler s) @ new \<and>
             list_all (\<lambda>e. snd e = b) new))"

section \<open>Eviction order of the replacer\<close>

lemma Evict_body_skip:
  assumes "\<not> candidate r f" "access_history r f \<noteq> None" "evictable r f \<noteq> None" "0 < unat (k_dist r)"
  shows "Evict_body f (v, r) = Inr (v, r)"
  using assms
  by (auto simp: Evict_body_def evictable_at_def access_history_at_def candidate_def history_of_def split: list.splits)

lemma Evict_body_inf:
  assumes "evictable r f = Some True" "access_history r f = Some (t # ts)"
    "length (t # ts) < unat (k_dist r)"
  shows "Evict_body f (v, r) =
     Inr (if \<not> found_inf v \<or> t < earliest_timestamp v
          then v\<lparr>evict_frame := f, earliest_timestamp := t, found_inf := True\<rparr> else v, r)"
  using assms
  by (simp add: Evict_body_def evictable_at_def access_history_at_def)

lemma Evict_body_fin:
  assumes "evictable r f = Some True" "access_history r f = Some (t # ts)"
    "\<not> length (t # ts) < unat (k_dist r)"
  shows "Evict_body f (v, r) =
     Inr (if \<not> found_inf v \<and> (evict_frame v = - 1 \<or> max_backward_k_distance v < current_timestamp r - t)
          then v\<lparr>evict_frame := f, max_backward_k_distance := current_timestamp r - t\<rparr> else v, r)"
  using assms
  by (simp add: Evict_body_def evictable_at_def access_history_at_def Let_def)

lemma Evict_body_step:
  assumes ok: "vars_ok r ps v" and h: "access_history r f \<noteq> None" and b: "evictable r f \<noteq> None"
    and f0: "0 \<le> f" and k: "0 < unat (k_dist r)"
  shows "\<exists>v'. Evict_body f (v, r) = Inr (v', r) \<and> vars_ok r (ps @ [f]) v'"
proof (cases "candidate r f")
  case False
  then have "Evict_body f (v, r) = Inr (v, r)"
    using h b k by (rule Evict_body_skip)
  moreover have "vars_ok r (ps @ [f]) v" using False ok by (auto simp: vars_ok_def)
  ultimately show ?thesis by blast
next
  case True
  then obtain t ts where ht: "access_history r f = Some (t # ts)" and bt: "evictable r f = Some True"
    using h b by (auto simp: candidate_def history_of_def neq_Nil_conv)
  have old: "oldest_timestamp_of r f = t" and hist: "history_of r f = t # ts"
    using ht by (simp_all add: oldest_timestamp_of_def history_of_def)
  have fne: "f \<noteq> - 1" using f0 by simp
  show ?thesis
  proof (cases "length (t # ts) < unat (k_dist r)")
    case inf: True
    then have fk: "fewer_than_k r f" by (simp add: fewer_than_k_def hist)
    let ?v' = "if \<not> found_inf v \<or> t < earliest_timestamp v
          then v\<lparr>evict_frame := f, earliest_timestamp := t, found_inf := True\<rparr> else v"
    have "Evict_body f (v, r) = Inr (?v', r)" using bt ht inf by (rule Evict_body_inf)
    moreover have "vars_ok r (ps @ [f]) ?v'"
      using ok True fk old fne
      by (auto simp: vars_ok_def)
    ultimately show ?thesis by blast
  next
    case fin: False
    then have fk: "\<not> fewer_than_k r f" by (simp add: fewer_than_k_def hist)
    have fd: "finite_distance r f = current_timestamp r - t" by (simp add: finite_distance_def old)
    let ?v' = "if \<not> found_inf v \<and> (evict_frame v = - 1 \<or> max_backward_k_distance v < current_timestamp r - t)
          then v\<lparr>evict_frame := f, max_backward_k_distance := current_timestamp r - t\<rparr> else v"
    have "Evict_body f (v, r) = Inr (?v', r)" using bt ht fin by (rule Evict_body_fin)
    moreover have "vars_ok r (ps @ [f]) ?v'"
    proof (cases "found_inf v")
      case fi: True
      then show ?thesis using ok True fk by (auto simp: vars_ok_def)
    next
      case nfi: False
      show ?thesis
      proof (cases "evict_frame v = - 1")
        case e1: True
        then show ?thesis using ok True fk fd fne nfi by (auto simp: vars_ok_def)
      next
        case e2: False
        show ?thesis
        proof (cases "max_backward_k_distance v < current_timestamp r - t")
          case lt: True
          have "\<forall>c \<in> set ps. candidate r c \<longrightarrow> finite_distance r c \<le> current_timestamp r - t"
            using ok nfi e2 lt by (fastforce simp: vars_ok_def)
          then show ?thesis using ok True fk fd fne nfi e2 lt by (simp add: vars_ok_def) 
        next
          case ge: False
          then have "finite_distance r f \<le> max_backward_k_distance v" using fd by simp
          then show ?thesis using ok True fk fne nfi e2 ge by (auto simp: vars_ok_def)
        qed
      qed
    qed
    ultimately show ?thesis by blast
  qed
qed

lemma Evict_loop_ok:
  assumes "vars_ok r ps v" "0 < unat (k_dist r)"
    "\<forall>f \<in> set fs. 0 \<le> f \<and> access_history r f \<noteq> None \<and> evictable r f \<noteq> None"
  shows "\<exists>v'. Evict_loop fs (v, r) = Inr (v', r) \<and> vars_ok r (ps @ fs) v'"
  using assms
proof (induction fs arbitrary: ps v)
  case Nil
  then show ?case by simp
next
  case (Cons f fs)
  then obtain v1 where b: "Evict_body f (v, r) = Inr (v1, r)" and ok1: "vars_ok r (ps @ [f]) v1"
    using Evict_body_step [of r ps v f] by auto
  from Cons.IH [OF ok1 Cons.prems(2)] Cons.prems(3)
  obtain v' where "Evict_loop fs (v1, r) = Inr (v', r)" "vars_ok r ((ps @ [f]) @ fs) v'"
    by auto
  then show ?case using b by simp
qed

lemma vars_ok_init: "vars_ok r [] evict_vars_init"
  by (simp add: vars_ok_def evict_vars_init_def)

lemma no_evictable_no_candidates:
  assumes "replacer_inv r" "curr_size r = 0"
  shows "candidates r = []"
proof -
  have "filter (\<lambda>f. evictable r f = Some True) (node_store r) = []"
    using assms by (simp add: replacer_inv_def)
  then have "\<forall>f \<in> set (node_store r). evictable r f \<noteq> Some True"
    by (simp add: filter_empty_conv)
  then show ?thesis
    by (auto simp: candidates_def candidate_def filter_empty_conv)
qed

lemma Evict_loop_result:
  assumes "replacer_inv r" "0 < unat (k_dist r)"
  shows "\<exists>v. Evict_loop (node_store r) (evict_vars_init, r) = Inr (v, r) \<and> vars_ok r (node_store r) v"
proof -
  have "\<forall>f \<in> set (node_store r). 0 \<le> f \<and> access_history r f \<noteq> None \<and> evictable r f \<noteq> None"
    using assms by (auto simp: replacer_inv_def invalid_frame_id_def)
  moreover have "0 < unat (k_dist r)" using assms(2) .
  ultimately show ?thesis
    using Evict_loop_ok [OF vars_ok_init, of r "node_store r"] by simp
qed

lemma k_distance_infinite: "k_distance r f = \<infinity> \<longleftrightarrow> fewer_than_k r f"
  by (simp add: k_distance_def)

lemma vars_ok_largest:
  assumes "vars_ok r ps v" "evict_frame v \<noteq> - 1" "c \<in> set ps" "candidate r c"
  shows "k_distance r c \<le> k_distance r (evict_frame v)"
proof (cases "found_inf v")
  case True
  then have "k_distance r (evict_frame v) = \<infinity>"
    using assms(1) by (simp add: vars_ok_def k_distance_def)
  then show ?thesis by simp
next
  case False
  then have "\<not> fewer_than_k r c" "\<not> fewer_than_k r (evict_frame v)"
    and "finite_distance r c \<le> finite_distance r (evict_frame v)"
    using assms by (auto simp: vars_ok_def)
  then show ?thesis by (simp add: k_distance_def word_le_nat_alt)
qed

lemma vars_ok_tie:
  assumes "vars_ok r ps v" "evict_frame v \<noteq> - 1" "c \<in> set ps" "candidate r c" "fewer_than_k r c"
  shows "oldest_timestamp_of r (evict_frame v) \<le> oldest_timestamp_of r c"
proof -
  have "found_inf v" using assms by (auto simp: vars_ok_def)
  then show ?thesis using assms by (auto simp: vars_ok_def)
qed

text \<open>
  C2 as stated, for every replacer state, fails where \<open>k = 0\<close>. The replacer made by
  \<^verbatim>\<open>LRUKReplacer(2, 0)\<close> is, after \<^verbatim>\<open>RecordAccess(0)\<close> and \<^verbatim>\<open>SetEvictable(0, true)\<close>, in
  the state \<open>r_k0\<close>, which satisfies the invariant. No tracked evictable frame has a
  non-empty history there, but \<open>Evict\<close> does not return "no frame": the history's size is
  not below \<open>k\<close>, so the loop takes the branch of the finite distances and calls
  \<^verbatim>\<open>front()\<close> on the empty history.
\<close>

theorem Evict_k_zero_counterexample:
  "and_then (RecordAccess 0 (LRUKReplacer_new 2 0)) (SetEvictable 0 True) = Inr r_k0 \<and>
   replacer_inv r_k0 \<and> candidates r_k0 = [] \<and> Evict r_k0 = Inl EmptyFront"
proof -
  have a: "and_then (RecordAccess 0 (LRUKReplacer_new 2 0)) (SetEvictable 0 True) = Inr r_k0"
    by (simp add: and_then_def RecordAccess_def SetEvictable_def LRUKReplacer_new_def
        invalid_frame_id_def access_history_at_def evictable_at_def r_k0_def Let_def)
  have b: "replacer_inv r_k0"
    by (auto simp: r_k0_def replacer_inv_def invalid_frame_id_def)
  have c: "candidates r_k0 = []"
    by (simp add: r_k0_def candidates_def candidate_def history_of_def)
  have d: "Evict r_k0 = Inl EmptyFront"
    by (simp add: r_k0_def Evict_def Evict_body_def evict_vars_init_def evictable_at_def
        access_history_at_def)
  show ?thesis using a b c d by blast
qed

text \<open>
  C2 (amended). In every replacer state with \<open>k \<ge> 1\<close> that satisfies the invariant,
  \<open>Evict\<close> returns no frame
  exactly when no tracked evictable frame with a non-empty history exists, and leaves the
  state as it is. Otherwise it returns one of those frames, \<open>v\<close>: no eligible frame has a
  larger backward k-distance (fewer than \<open>k\<close> accesses count as \<open>\<infinity>\<close>), among the eligible
  frames of distance \<open>\<infinity>\<close> none has an earlier oldest timestamp, and afterwards \<open>v\<close> is
  no longer tracked, its history and its evictable flag are gone, and the size is one less.
\<close>

theorem Evict_spec:
  assumes "replacer_inv r" "0 < unat (k_dist r)"
  shows "(candidates r = [] \<longrightarrow> Evict r = Inr (None, r)) \<and>
         (candidates r \<noteq> [] \<longrightarrow>
            (\<exists>v. Evict r = Inr (Some v, erase_frame v r) \<and> v \<in> set (candidates r) \<and>
                 (\<forall>c \<in> set (candidates r). k_distance r c \<le> k_distance r v) \<and>
                 (\<forall>c \<in> set (candidates r). k_distance r c = \<infinity> \<longrightarrow>
                      oldest_timestamp_of r v \<le> oldest_timestamp_of r c) \<and>
                 v \<notin> set (node_store (erase_frame v r)) \<and>
                 access_history (erase_frame v r) v = None \<and>
                 evictable (erase_frame v r) v = None \<and>
                 unat (Size (erase_frame v r)) + 1 = unat (Size r)))"
proof (cases "curr_size r = 0")
  case True
  then have "candidates r = []" using assms(1) no_evictable_no_candidates by blast
  then show ?thesis using True by (simp add: Evict_def)
next
  case False
  obtain v where loop: "Evict_loop (node_store r) (evict_vars_init, r) = Inr (v, r)"
    and ok: "vars_ok r (node_store r) v"
    using Evict_loop_result [OF assms] by blast
  show ?thesis
  proof (cases "evict_frame v = - 1")
    case True
    then have "candidates r = []" using ok by (simp add: vars_ok_def candidates_def filter_empty_conv)
    moreover have "Evict r = Inr (None, r)" using False loop True by (simp add: Evict_def)
    ultimately show ?thesis by simp
  next
    case ne: False
    let ?f = "evict_frame v"
    have ev: "Evict r = Inr (Some ?f, erase_frame ?f r)" using False loop ne by (simp add: Evict_def)
    have mem: "?f \<in> set (candidates r)" using ok ne by (simp add: vars_ok_def candidates_def)
    have big: "\<forall>c \<in> set (candidates r). k_distance r c \<le> k_distance r ?f"
      using vars_ok_largest [OF ok ne] by (simp add: candidates_def)
    have tie: "\<forall>c \<in> set (candidates r). k_distance r c = \<infinity> \<longrightarrow>
                      oldest_timestamp_of r ?f \<le> oldest_timestamp_of r c"
      using vars_ok_tie [OF ok ne] by (simp add: candidates_def k_distance_infinite)
    have sz: "unat (Size (erase_frame ?f r)) + 1 = unat (Size r)"
      using False by (simp add: Size_def erase_frame_def unat_minus_one unat_gt_0)
    have gone: "?f \<notin> set (node_store (erase_frame ?f r))" "access_history (erase_frame ?f r) ?f = None"
      "evictable (erase_frame ?f r) ?f = None"
      by (simp_all add: erase_frame_def)
    have "candidates r \<noteq> []" using mem by auto
    then show ?thesis using ev mem big tie sz gone by blast
  qed
qed


lemma r_ex_inv: "replacer_inv r_ex"
  by (auto simp: r_ex_def replacer_inv_def invalid_frame_id_def)

lemma r_ex_k: "0 < unat (k_dist r_ex)"
  by (simp add: r_ex_def)

lemma r_ex_candidates: "candidates r_ex = [2, 0, 1]"
  by (simp add: r_ex_def candidates_def candidate_def history_of_def)

lemma r_ex_distance:
  "k_distance r_ex 0 = enat 3" "k_distance r_ex 1 = \<infinity>" "k_distance r_ex 2 = \<infinity>"
  "oldest_timestamp_of r_ex 1 = 2" "oldest_timestamp_of r_ex 2 = 3"
  by (simp_all add: r_ex_def k_distance_def fewer_than_k_def finite_distance_def
      oldest_timestamp_of_def history_of_def)

theorem Evict_spec_witness:
  "replacer_inv r_ex \<and> 0 < unat (k_dist r_ex) \<and> candidates r_ex = [2, 0, 1] \<and>
   Evict r_ex = Inr (Some 1, erase_frame 1 r_ex) \<and> unat (Size (erase_frame 1 r_ex)) + 1 = unat (Size r_ex)"
proof -
  have ne: "candidates r_ex \<noteq> []" by (simp add: r_ex_candidates)
  from Evict_spec [OF r_ex_inv r_ex_k] ne obtain v where
    ev: "Evict r_ex = Inr (Some v, erase_frame v r_ex)" and
    mem: "v \<in> set (candidates r_ex)" and
    big: "\<forall>c \<in> set (candidates r_ex). k_distance r_ex c \<le> k_distance r_ex v" and
    tie: "\<forall>c \<in> set (candidates r_ex). k_distance r_ex c = \<infinity> \<longrightarrow>
            oldest_timestamp_of r_ex v \<le> oldest_timestamp_of r_ex c" and
    sz: "unat (Size (erase_frame v r_ex)) + 1 = unat (Size r_ex)"
    by blast
  have "v \<noteq> 0" using big by (auto simp: r_ex_candidates r_ex_distance)
  moreover have "v \<noteq> 2" using tie by (auto simp: r_ex_candidates r_ex_distance)
  ultimately have "v = 1" using mem by (auto simp: r_ex_candidates)
  then show ?thesis using ev sz r_ex_inv r_ex_k r_ex_candidates by simp
qed

section \<open>Deleting and flushing pages\<close>

lemma and_then_Inl [simp]: "and_then (Inl e) f = Inl e"
  by (simp add: and_then_def)

lemma and_then_Inr [simp]: "and_then (Inr x) f = f x"
  by (simp add: and_then_def)

lemma pool_wf_frame:
  assumes "pool_wf s" "map_of (page_table s) pid = Some fid"
  shows "0 \<le> fid" "nat fid < length (frames s)" "\<not> invalid_frame_id fid (replacer s)"
  using assms map_of_SomeD [OF assms(2)] by (auto simp: pool_wf_def)

lemma SetEvictable_total:
  assumes "\<not> invalid_frame_id f r"
  shows "\<exists>r'. SetEvictable f b r = Inr r'"
  using assms by (auto simp: SetEvictable_def evictable_at_def Let_def split: option.splits)

lemma map_of_delete_other: "q \<noteq> p \<Longrightarrow> map_of (AList.delete p al) q = map_of al q"
  by (simp add: delete_conv)

text \<open>
  C3. Called outside the pool latch on a well-formed pool, \<open>DeletePage pid\<close> returns false
  exactly when \<open>pid\<close> is resident in a frame with a pin count above zero, and then the
  state is unchanged (so no request reached the disk channel). In every other case it
  returns true, \<open>pid\<close> is no longer in the page table (no other mapping changes), the
  frame that held it, if any, is appended to the free list, and exactly one request was
  issued and waited for: it is not a write, its \<^verbatim>\<open>is_deallocate_\<close> flag is set, its page id
  is \<open>pid\<close> and its data pointer is null.
\<close>

theorem DeletePage_spec:
  assumes "\<not> bpm_latch s" "pool_wf s"
  shows "\<exists>s'. DeletePage pid s = Inr (\<not> pinned_resident pid s, s') \<and>
           (if pinned_resident pid s then s' = s
            else map_of (page_table s') pid = None \<and>
                 map_of (page_table s') = (map_of (page_table s))(pid := None) \<and>
                 free_frames s' = free_frames s @ frame_to_free pid s \<and>
                 request_log (disk_scheduler s') =
                   request_log (disk_scheduler s) @
                     [(\<lparr>is_write = False, data_ptr = None, req_page_id = pid,
                        is_deallocate = True\<rparr>, True)])"
proof (cases "map_of (page_table s) pid")
  case None
  have "map_of (page_table s) = (map_of (page_table s))(pid := None)"
    using None by (metis fun_upd_idem)
  with None show ?thesis using assms(1)
    by (simp add: DeletePage_def bpm_lock_def bpm_unlock_def pinned_resident_def frame_to_free_def
        Schedule_and_wait_def deallocate_request_def DiskRequest_init_def Let_def)
next
  case (Some fid)
  note wf = pool_wf_frame [OF assms(2) Some]
  show ?thesis
  proof (cases "0 < pin_count (frames s ! nat fid)")
    case True
    then show ?thesis using assms(1) Some wf
      by (simp add: DeletePage_def bpm_lock_def bpm_unlock_def pinned_resident_def frame_at_def)
  next
    case False
    obtain r' where r': "SetEvictable fid False (replacer s) = Inr r'"
      using SetEvictable_total [OF wf(3)] by blast
    show ?thesis using assms(1) Some wf False r'
      by (simp add: DeletePage_def bpm_lock_def bpm_unlock_def pinned_resident_def frame_at_def
         frame_to_free_def frame_put_def delete_conv'
        Schedule_and_wait_def deallocate_request_def DiskRequest_init_def Let_def)
  qed
qed

text \<open>
  C10. Deleting a resident, unpinned, dirty page succeeds without any write-back: the
  frame's bytes are all zero and its dirty flag is clear when it is on the free list, the
  only request issued is the deallocation (not a write), and no disk image has changed.
\<close>

theorem DeletePage_discards_dirty:
  assumes "\<not> bpm_latch s" "pool_wf s" "map_of (page_table s) pid = Some fid"
    "pin_count (frames s ! nat fid) = 0" "is_dirty (frames s ! nat fid)"
  shows "\<exists>s'. DeletePage pid s = Inr (True, s') \<and>
      data (frames s' ! nat fid) = replicate (length (data (frames s ! nat fid))) 0 \<and>
      \<not> is_dirty (frames s' ! nat fid) \<and>
      free_frames s' = free_frames s @ [fid] \<and>
      map_of (page_table s') pid = None \<and>
      request_log (disk_scheduler s') =
        request_log (disk_scheduler s) @ [(deallocate_request pid, True)] \<and>
      \<not> is_write (deallocate_request pid) \<and> is_deallocate (deallocate_request pid) \<and>
      req_page_id (deallocate_request pid) = pid \<and> data_ptr (deallocate_request pid) = None \<and>
      disk_pages (disk_scheduler s') = disk_pages (disk_scheduler s)"
proof -
  note wf = pool_wf_frame [OF assms(2,3)]
  obtain r' where r': "SetEvictable fid False (replacer s) = Inr r'"
    using SetEvictable_total [OF wf(3)] by blast
  show ?thesis using assms(1,3,4,5) wf r'
    by (simp add: DeletePage_def bpm_lock_def bpm_unlock_def frame_at_def
         frame_put_def delete_conv' Reset_def
        Schedule_and_wait_def deallocate_request_def DiskRequest_init_def Let_def)
qed

lemma rw_writer_same:
  "\<not> rw_writer fh \<Longrightarrow> fh\<lparr>rw_writer := False\<rparr> = fh"
  "\<not> rw_writer fh \<Longrightarrow> fh\<lparr>is_dirty := d, rw_writer := False\<rparr> = fh\<lparr>is_dirty := d\<rparr>"
  by (cases fh, simp)+

lemma write_and_clean_eq:
  assumes "0 \<le> fid" "nat fid < length (frames s)"
  shows "write_and_clean pid fid s = Inr (written_back pid fid s)"
  using assms
  by (simp add: write_and_clean_def Schedule_and_wait_def write_request_def DiskRequest_init_def
      frame_at_def frame_put_def written_back_def Let_def DiskManager_WritePage_def)

lemma flush_under_frame_latch_eq:
  assumes "0 \<le> fid" "nat fid < length (frames s)" "latch_free (frames s ! nat fid)"
  shows "flush_under_frame_latch pid fid s =
           Inr (if is_dirty (frames s ! nat fid) then written_back pid fid s else s)"
proof -
  let ?fh = "frames s ! nat fid"
  let ?s1 = "frame_put fid (?fh\<lparr>rw_writer := True\<rparr>) s"
  have lk: "rwlatch_lock ?fh = Inr (?fh\<lparr>rw_writer := True\<rparr>)"
    using assms(3) by (simp add: rwlatch_lock_def latch_free_def)
  have len: "nat fid < length (frames ?s1)" using assms(2) by (simp add: frame_put_def)
  show ?thesis
  proof (cases "is_dirty ?fh")
    case True
    have w: "write_and_clean pid fid ?s1 = Inr (written_back pid fid ?s1)"
      using assms(1) len by (rule write_and_clean_eq)
    have rest: "frame_put fid ((frames (written_back pid fid ?s1) ! nat fid)\<lparr>rw_writer := False\<rparr>)
             (written_back pid fid ?s1) = written_back pid fid s"
      using assms(2,3)
      by (simp add: frame_put_def written_back_def latch_free_def rw_writer_same)
    have wr: "rw_writer (frames (written_back pid fid ?s1) ! nat fid)"
      using assms(2) by (simp add: frame_put_def written_back_def)
    show ?thesis using True assms(1,2) lk w rest wr
      by (simp add: flush_under_frame_latch_def frame_at_def rwlatch_unlock_def written_back_def frame_put_def)
  next
    case False
    have rest: "frame_put fid ((frames ?s1 ! nat fid)\<lparr>rw_writer := False\<rparr>) ?s1 = s"
      using assms(2,3) by (simp add: frame_put_def latch_free_def rw_writer_same)
    show ?thesis using False assms(1,2) lk rest
      by (simp add: flush_under_frame_latch_def frame_at_def rwlatch_unlock_def frame_put_def)
  qed
qed

lemma FlushPage_eq:
  assumes "\<not> bpm_latch s" "pool_wf s" "resident_latch_free pid s"
  shows "FlushPage pid s = Inr (flush_result pid s)"
proof (cases "map_of (page_table s) pid")
  case None
  then show ?thesis using assms(1)
    by (simp add: FlushPage_def bpm_lock_def bpm_unlock_def flush_result_def)
next
  case (Some fid)
  note wf = pool_wf_frame [OF assms(2) Some]
  have un: "bpm_unlock (s\<lparr>bpm_latch := True\<rparr>) = s" using assms(1) by (simp add: bpm_unlock_def)
  have "latch_free (frames s ! nat fid)" using assms(3) Some by (simp add: resident_latch_free_def)
  from flush_under_frame_latch_eq [OF wf(1,2) this, of pid]
  show ?thesis using assms(1) Some wf un
    by (simp add: FlushPage_def bpm_lock_def frame_at_def flush_result_def)
qed

lemma written_back_props:
  assumes "0 \<le> fid" "nat fid < length (frames s)"
  shows "\<not> is_dirty (frames (written_back pid fid s) ! nat fid)"
    "page_table (written_back pid fid s) = page_table s"
    "bpm_latch (written_back pid fid s) = bpm_latch s"
    "replacer (written_back pid fid s) = replacer s"
    "length (frames (written_back pid fid s)) = length (frames s)"
    "latch_free (frames (written_back pid fid s) ! nat fid) = latch_free (frames s ! nat fid)"
  using assms by (simp_all add: written_back_def latch_free_def)

lemma flush_result_again:
  assumes "pool_wf s"
  shows "flush_result pid (snd (flush_result pid s)) = (fst (flush_result pid s), snd (flush_result pid s))"
proof (cases "map_of (page_table s) pid")
  case None
  then show ?thesis by (simp add: flush_result_def)
next
  case (Some fid)
  note wf = pool_wf_frame [OF assms Some]
  show ?thesis using Some written_back_props(1,2) [OF wf(1,2), of pid]
    by (simp add: flush_result_def)
qed

lemma flush_result_pre:
  assumes "\<not> bpm_latch s" "pool_wf s" "resident_latch_free pid s"
  shows "\<not> bpm_latch (snd (flush_result pid s))" "pool_wf (snd (flush_result pid s))"
    "resident_latch_free pid (snd (flush_result pid s))"
proof -
  show "\<not> bpm_latch (snd (flush_result pid s))"
    using assms(1) by (simp add: flush_result_def written_back_def split: option.splits)
  show "pool_wf (snd (flush_result pid s))"
    using assms(2) by (auto simp: flush_result_def written_back_def pool_wf_def split: option.splits)
  show "resident_latch_free pid (snd (flush_result pid s))"
  proof (cases "map_of (page_table s) pid")
    case None
    then show ?thesis by (simp add: flush_result_def resident_latch_free_def)
  next
    case (Some fid)
    note wf = pool_wf_frame [OF assms(2) Some]
    show ?thesis using Some assms(3) written_back_props(2,6) [OF wf(1,2), of pid]
      by (simp add: flush_result_def resident_latch_free_def)
  qed
qed

lemma Flush_eq:
  assumes "is_valid g" "frame g = Some fid" "0 \<le> fid" "nat fid < length (frames s)"
  shows "Flush g s = Inr (if is_dirty (frames s ! nat fid) then written_back (page_id g) fid s else s)"
  using assms write_and_clean_eq [OF assms(3,4), of "page_id g"]
  by (simp add: Flush_def BUSTUB_ENSURE_def guard_frame_def frame_at_def)

text \<open>
  C5. Called outside the pool latch, for a page whose frame latch nobody holds,
  \<open>FlushPage pid\<close> returns \<open>flush_result pid s\<close>: false and the same state when \<open>pid\<close> is
  not resident; true otherwise, with one write and the dirty flag cleared if the frame was
  dirty, and the same state if it was clean. A second \<open>FlushPage pid\<close> returns the same
  answer and leaves the state (request log included) as the first call left it. A valid
  guard's \<open>Flush\<close> writes only if the frame is dirty, and a second \<open>Flush\<close> changes nothing.
\<close>

theorem FlushPage_idempotent:
  assumes "\<not> bpm_latch s" "pool_wf s" "resident_latch_free pid s"
    and "is_valid g" "frame g = Some fid" "0 \<le> fid" "nat fid < length (frames s)"
  shows "FlushPage pid s = Inr (flush_result pid s) \<and>
         (fst (flush_result pid s) \<longleftrightarrow> map_of (page_table s) pid \<noteq> None) \<and>
         FlushPage pid (snd (flush_result pid s)) = Inr (fst (flush_result pid s), snd (flush_result pid s)) \<and>
         Flush g s = Inr (if is_dirty (frames s ! nat fid) then written_back (page_id g) fid s else s) \<and>
         Flush g (if is_dirty (frames s ! nat fid) then written_back (page_id g) fid s else s) =
           Inr (if is_dirty (frames s ! nat fid) then written_back (page_id g) fid s else s)"
proof -
  have a: "FlushPage pid s = Inr (flush_result pid s)"
    using assms(1-3) by (rule FlushPage_eq)
  have b: "fst (flush_result pid s) \<longleftrightarrow> map_of (page_table s) pid \<noteq> None"
    by (simp add: flush_result_def split: option.splits)
  have c: "FlushPage pid (snd (flush_result pid s)) = Inr (fst (flush_result pid s), snd (flush_result pid s))"
    using FlushPage_eq [OF flush_result_pre [OF assms(1-3)]] flush_result_again [OF assms(2)]
    by simp
  have d: "Flush g s = Inr (if is_dirty (frames s ! nat fid) then written_back (page_id g) fid s else s)"
    using assms(4-7) by (rule Flush_eq)
  have e: "Flush g (if is_dirty (frames s ! nat fid) then written_back (page_id g) fid s else s) =
           Inr (if is_dirty (frames s ! nat fid) then written_back (page_id g) fid s else s)"
  proof (cases "is_dirty (frames s ! nat fid)")
    case True
    have "nat fid < length (frames (written_back (page_id g) fid s))"
      using assms(6,7) by (simp add: written_back_props)
    from Flush_eq [OF assms(4,5,6) this] written_back_props(1) [OF assms(6,7), of "page_id g"]
    show ?thesis using True by simp
  next
    case False
    then show ?thesis using d by simp
  qed
  show ?thesis using a b c d e by blast
qed

subsection \<open>The example pool\<close>

lemma s_ex_unlocked: "\<not> bpm_latch s_ex"
  by (simp add: s_ex_def)

lemma s_ex_wf: "pool_wf s_ex"
  by (simp add: s_ex_def pool_wf_def invalid_frame_id_def)

lemma s_ex_lookup:
  "map_of (page_table s_ex) 7 = Some 0" "map_of (page_table s_ex) 8 = Some 1"
  "map_of (page_table s_ex) 5 = None"
  by (simp_all add: s_ex_def)

lemma s_ex_frames:
  "frames s_ex ! 0 = \<lparr>frame_id = 0, data = [0xAB, 0xCD], pin_count = 0, is_dirty = True,
           rw_readers = 0, rw_writer = False\<rparr>"
  "frames s_ex ! Suc 0 = \<lparr>frame_id = 1, data = [0x11, 0x22], pin_count = 1, is_dirty = False,
           rw_readers = 1, rw_writer = False\<rparr>"
  "length (frames s_ex) = 2"
  by (simp_all add: s_ex_def)

theorem DeletePage_spec_witness:
  "\<not> bpm_latch s_ex \<and> pool_wf s_ex \<and> pinned_resident 8 s_ex \<and> \<not> pinned_resident 7 s_ex \<and>
   DeletePage 8 s_ex = Inr (False, s_ex) \<and>
   (\<exists>s'. DeletePage 7 s_ex = Inr (True, s') \<and> map_of (page_table s') 7 = None \<and>
         free_frames s' = [0] \<and>
         request_log (disk_scheduler s') =
           request_log (disk_scheduler s_ex) @
             [(\<lparr>is_write = False, data_ptr = None, req_page_id = 7,
                is_deallocate = True\<rparr>, True)])"
proof -
  have p8: "pinned_resident 8 s_ex" and p7: "\<not> pinned_resident 7 s_ex"
    by (simp_all add: pinned_resident_def s_ex_lookup s_ex_frames)
  have f7: "free_frames s_ex @ frame_to_free 7 s_ex = [0]"
    by (simp add: frame_to_free_def s_ex_lookup) (simp add: s_ex_def)
  show ?thesis
    using DeletePage_spec [OF s_ex_unlocked s_ex_wf, of 8]
      DeletePage_spec [OF s_ex_unlocked s_ex_wf, of 7] p8 p7 f7 s_ex_unlocked s_ex_wf
    by auto
qed

theorem DeletePage_discards_dirty_witness:
  "\<not> bpm_latch s_ex \<and> pool_wf s_ex \<and> map_of (page_table s_ex) 7 = Some 0 \<and>
   pin_count (frames s_ex ! nat 0) = 0 \<and> is_dirty (frames s_ex ! nat 0) \<and>
   data (frames s_ex ! nat 0) = [0xAB, 0xCD] \<and>
   (\<exists>s'. DeletePage 7 s_ex = Inr (True, s') \<and> data (frames s' ! nat 0) = [0, 0] \<and>
         \<not> is_dirty (frames s' ! nat 0) \<and> free_frames s' = [0] \<and>
         disk_pages (disk_scheduler s') = disk_pages (disk_scheduler s_ex))"
proof -
  have a: "pin_count (frames s_ex ! nat 0) = 0" "is_dirty (frames s_ex ! nat 0)"
    "data (frames s_ex ! nat 0) = [0xAB, 0xCD]" "free_frames s_ex = []"
    by (simp_all add: s_ex_frames) (simp add: s_ex_def)
  show ?thesis
    using DeletePage_discards_dirty [OF s_ex_unlocked s_ex_wf s_ex_lookup(1) a(1,2)]
      s_ex_unlocked s_ex_wf s_ex_lookup(1) a
    by (auto simp: numeral_2_eq_2)
qed

theorem FlushPage_idempotent_witness:
  "\<not> bpm_latch s_ex \<and> pool_wf s_ex \<and> resident_latch_free 7 s_ex \<and>
   is_valid g_ex \<and> frame g_ex = Some 1 \<and> nat 1 < length (frames s_ex) \<and>
   FlushPage 7 s_ex = Inr (True, written_back 7 0 s_ex) \<and>
   FlushPage 7 (written_back 7 0 s_ex) = Inr (True, written_back 7 0 s_ex) \<and>
   request_log (disk_scheduler (written_back 7 0 s_ex)) =
     request_log (disk_scheduler s_ex) @ [(write_request 7 0, False)] \<and>
   Flush g_ex s_ex = Inr s_ex"
proof -
  have lf: "resident_latch_free 7 s_ex"
    by (simp add: resident_latch_free_def s_ex_lookup s_ex_frames latch_free_def)
  have g: "is_valid g_ex" "frame g_ex = Some 1" "(0::int) \<le> 1" "nat 1 < length (frames s_ex)"
    by (simp_all add: g_ex_def s_ex_frames)
  have fr: "flush_result 7 s_ex = (True, written_back 7 0 s_ex)"
    by (simp add: flush_result_def s_ex_lookup s_ex_frames)
  have cl: "\<not> is_dirty (frames s_ex ! nat 1)" by (simp add: s_ex_frames)
  have lg: "request_log (disk_scheduler (written_back 7 0 s_ex)) =
     request_log (disk_scheduler s_ex) @ [(write_request 7 0, False)]"
    by (simp add: written_back_def s_ex_unlocked)
  show ?thesis
    using FlushPage_idempotent [OF s_ex_unlocked s_ex_wf lf g] fr cl lg s_ex_unlocked s_ex_wf lf g
    by simp
qed

section \<open>The replacer's operations keep its invariant\<close>

lemma count_flip_on:
  assumes "distinct xs" "f \<in> set xs" "\<not> P f"
  shows "length (filter (\<lambda>x. x = f \<or> P x) xs) = Suc (length (filter P xs))"
  using assms
proof (induction xs)
  case Nil
  then show ?case by simp
next
  case (Cons x xs)
  show ?case
  proof (cases "x = f")
    case True
    then have "f \<notin> set xs" using Cons.prems by simp
    then have "filter (\<lambda>x. x = f \<or> P x) xs = filter P xs"
      by (intro filter_cong) auto
    then show ?thesis using True Cons.prems by simp
  next
    case False
    then show ?thesis using Cons by simp
  qed
qed

lemma count_flip_off:
  assumes "distinct xs" "f \<in> set xs" "P f"
  shows "Suc (length (filter (\<lambda>x. x \<noteq> f \<and> P x) xs)) = length (filter P xs)"
  using assms
proof (induction xs)
  case Nil
  then show ?case by simp
next
  case (Cons x xs)
  show ?case
  proof (cases "x = f")
    case True
    then have "f \<notin> set xs" using Cons.prems by simp
    then have "filter (\<lambda>x. x \<noteq> f \<and> P x) xs = filter P xs"
      by (intro filter_cong) auto
    then show ?thesis using True Cons.prems by simp
  next
    case False
    then show ?thesis using Cons by simp
  qed
qed

lemma count_upd_new:
  assumes "f \<notin> set xs"
  shows "length (filter (\<lambda>x. (m(f \<mapsto> b)) x = Some True) xs) = length (filter (\<lambda>x. m x = Some True) xs)"
proof -
  have "filter (\<lambda>x. (m(f \<mapsto> b)) x = Some True) xs = filter (\<lambda>x. m x = Some True) xs"
    using assms by (intro filter_cong) auto
  then show ?thesis by simp
qed

lemma count_upd_True:
  assumes "distinct xs" "f \<in> set xs" "m f \<noteq> Some True"
  shows "length (filter (\<lambda>x. (m(f \<mapsto> True)) x = Some True) xs) = Suc (length (filter (\<lambda>x. m x = Some True) xs))"
proof -
  have "filter (\<lambda>x. (m(f \<mapsto> True)) x = Some True) xs = filter (\<lambda>x. x = f \<or> m x = Some True) xs"
    by (intro filter_cong) auto
  then show ?thesis using count_flip_on [OF assms(1,2), of "\<lambda>x. m x = Some True"] assms(3) by simp
qed

lemma count_upd_False:
  assumes "distinct xs" "f \<in> set xs" "m f = Some True"
  shows "Suc (length (filter (\<lambda>x. (m(f \<mapsto> False)) x = Some True) xs)) = length (filter (\<lambda>x. m x = Some True) xs)"
proof -
  have "filter (\<lambda>x. (m(f \<mapsto> False)) x = Some True) xs = filter (\<lambda>x. x \<noteq> f \<and> m x = Some True) xs"
    by (intro filter_cong) auto
  then show ?thesis using count_flip_off [OF assms(1,2), of "\<lambda>x. m x = Some True"] assms(3) by simp
qed

lemma count_erase:
  assumes "distinct xs" "f \<in> set xs" "m f = Some True"
  shows "Suc (length (filter (\<lambda>x. (m(f := None)) x = Some True) (removeAll f xs))) =
     length (filter (\<lambda>x. m x = Some True) xs)"
proof -
  have "filter (\<lambda>x. (m(f := None)) x = Some True) (removeAll f xs) =
        filter (\<lambda>x. x \<noteq> f \<and> m x = Some True) xs"
    unfolding removeAll_filter_not_eq filter_filter by (intro filter_cong) auto
  then show ?thesis using count_flip_off [OF assms(1,2), of "\<lambda>x. m x = Some True"] assms(3) by simp
qed

lemma tracked_bound:
  assumes "distinct xs" "\<forall>f \<in> set xs. 0 \<le> f \<and> nat f < n"
  shows "length xs \<le> n"
proof -
  have "set xs \<subseteq> int ` {0..<n}"
  proof
    fix f assume "f \<in> set xs"
    then have "0 \<le> f" "nat f < n" using assms(2) by auto
    then have "f = int (nat f)" "nat f \<in> {0..<n}" by auto
    then show "f \<in> int ` {0..<n}" by blast
  qed
  then have "card (set xs) \<le> card (int ` {0..<n})" by (intro card_mono) auto
  also have "\<dots> \<le> n" using card_image_le [of "{0..<n}" int] by simp
  finally show ?thesis using assms(1) by (simp add: distinct_card)
qed

lemma replacer_inv_new: "replacer_inv (LRUKReplacer_new n k)"
  by (simp add: replacer_inv_def LRUKReplacer_new_def)

lemma replacer_invI:
  assumes "distinct (node_store r)"
    "\<And>f. f \<in> set (node_store r) \<Longrightarrow> \<not> invalid_frame_id f r"
    "\<And>f. f \<in> set (node_store r) \<Longrightarrow> access_history r f \<noteq> None"
    "\<And>f. f \<in> set (node_store r) \<Longrightarrow> evictable r f \<noteq> None"
    "unat (curr_size r) = length (filter (\<lambda>f. evictable r f = Some True) (node_store r))"
  shows "replacer_inv r"
  using assms unfolding replacer_inv_def by blast

lemma replacer_invD:
  assumes "replacer_inv r"
  shows "distinct (node_store r)"
    "f \<in> set (node_store r) \<Longrightarrow> \<not> invalid_frame_id f r"
    "f \<in> set (node_store r) \<Longrightarrow> access_history r f \<noteq> None"
    "f \<in> set (node_store r) \<Longrightarrow> evictable r f \<noteq> None"
    "unat (curr_size r) = length (filter (\<lambda>f. evictable r f = Some True) (node_store r))"
  using assms unfolding replacer_inv_def by blast+

lemma replacer_inv_RecordAccess:
  assumes "replacer_inv r" "RecordAccess f r = Inr r'"
  shows "replacer_inv r'"
proof -
  note inv = replacer_invD [OF assms(1)]
  from assms(2) have valid: "\<not> invalid_frame_id f r"
    by (auto simp: RecordAccess_def split: if_splits)
  from assms(2) obtain h' where
    ns: "node_store r' = (if f \<in> set (node_store r) then node_store r else node_store r @ [f])" and
    ev: "evictable r' = (if f \<in> set (node_store r) then evictable r else (evictable r)(f \<mapsto> False))" and
    ah: "access_history r' = (access_history r)(f \<mapsto> h')" and
    rest: "curr_size r' = curr_size r" "replacer_size r' = replacer_size r" "k_dist r' = k_dist r"
    by (auto simp: RecordAccess_def access_history_at_def Let_def split: if_splits option.splits)
  show ?thesis
  proof (rule replacer_invI)
    show "distinct (node_store r')" using inv(1) by (simp add: ns)
    show "\<not> invalid_frame_id g r'" if "g \<in> set (node_store r')" for g
      using that inv(2) [of g] valid by (auto simp: ns invalid_frame_id_def rest split: if_splits)
    show "access_history r' g \<noteq> None" if "g \<in> set (node_store r')" for g
      using that inv(3) [of g] by (auto simp: ns ah split: if_splits)
    show "evictable r' g \<noteq> None" if "g \<in> set (node_store r')" for g
      using that inv(4) [of g] by (auto simp: ns ev split: if_splits)
    show "unat (curr_size r') = length (filter (\<lambda>f. evictable r' f = Some True) (node_store r'))"
    proof (cases "f \<in> set (node_store r)")
      case True
      then show ?thesis using inv(5) by (simp add: ns ev rest)
    next
      case False
      then show ?thesis using inv(5) count_upd_new [of f "node_store r" "evictable r" False, OF False]
        by (simp add: ns ev rest)
    qed
  qed
qed

lemma replacer_inv_SetEvictable:
  assumes "replacer_inv r" "SetEvictable f b r = Inr r'"
  shows "replacer_inv r'"
proof (cases "f \<in> set (node_store r)")
  case False
  then show ?thesis using assms by (auto simp: SetEvictable_def split: if_splits)
next
  case True
  note inv = replacer_invD [OF assms(1)]
  obtain cur where cur: "evictable r f = Some cur" using inv(4) [OF True] by auto
  show ?thesis
  proof (cases "cur = b")
    case same: True
    then have "r' = r" using assms(2) True cur
      by (auto simp: SetEvictable_def evictable_at_def split: if_splits)
    then show ?thesis using assms(1) by simp
  next
    case diff: False
    from assms(2) True cur diff have
      ns: "node_store r' = node_store r" and ev: "evictable r' = (evictable r)(f \<mapsto> b)" and
      ah: "access_history r' = access_history r" and
      cs: "curr_size r' = (if b then curr_size r + 1 else curr_size r - 1)" and
      rest: "replacer_size r' = replacer_size r" "k_dist r' = k_dist r"
      by (auto simp: SetEvictable_def evictable_at_def split: if_splits)
    have count: "unat (curr_size r') = length (filter (\<lambda>f. evictable r' f = Some True) (node_store r'))"
    proof (cases b)
      case b: True
      then have c: "evictable r f \<noteq> Some True" using diff cur by simp
      have cnt: "length (filter (\<lambda>x. ((evictable r)(f \<mapsto> True)) x = Some True) (node_store r))
            = Suc (unat (curr_size r))"
        using count_upd_True [of "node_store r" f "evictable r", OF inv(1) True c] inv(5) by simp
      have "length (filter (\<lambda>x. ((evictable r)(f \<mapsto> True)) x = Some True) (node_store r))
              \<le> length (node_store r)" by (rule length_filter_le)
      moreover have "\<forall>g \<in> set (node_store r). 0 \<le> g \<and> nat g < unat (replacer_size r)"
        using inv(2) by (fastforce simp: invalid_frame_id_def)
      then have "length (node_store r) \<le> unat (replacer_size r)"
        using inv(1) by (intro tracked_bound)
      moreover have "unat (replacer_size r) < 2 ^ 64" using unsigned_less [of "replacer_size r"] by simp
      ultimately have "Suc (unat (curr_size r)) < 2 ^ 64" using cnt by linarith
      then have "unat (curr_size r + 1) = Suc (unat (curr_size r))"
        by (simp add: unat_add_lem [THEN iffD1])
      then show ?thesis using cnt b by (simp add: ns ev cs)
    next
      case b: False
      then have c: "evictable r f = Some True" using diff cur by simp
      have cnt: "Suc (length (filter (\<lambda>x. ((evictable r)(f \<mapsto> False)) x = Some True) (node_store r)))
            = unat (curr_size r)"
        using count_upd_False [of "node_store r" f "evictable r", OF inv(1) True c] inv(5) by simp
      then have "curr_size r \<noteq> 0" by (metis Zero_not_Suc unat_0)
      then have "unat (curr_size r - 1) = unat (curr_size r) - 1" by (simp add: unat_minus_one)
      then show ?thesis using cnt b by (simp add: ns ev cs)
    qed
    show ?thesis
    proof (rule replacer_invI)
      show "distinct (node_store r')" using inv(1) by (simp add: ns)
      show "\<not> invalid_frame_id g r'" if "g \<in> set (node_store r')" for g
        using that inv(2) [of g] by (simp add: ns invalid_frame_id_def rest)
      show "access_history r' g \<noteq> None" if "g \<in> set (node_store r')" for g
        using that inv(3) [of g] by (simp add: ns ah)
      show "evictable r' g \<noteq> None" if "g \<in> set (node_store r')" for g
        using that inv(4) [of g] by (simp add: ns ev)
      show "unat (curr_size r') = length (filter (\<lambda>f. evictable r' f = Some True) (node_store r'))"
        by (rule count)
    qed
  qed
qed

lemma replacer_inv_erase_frame:
  assumes "replacer_inv r" "f \<in> set (node_store r)" "evictable r f = Some True"
  shows "replacer_inv (erase_frame f r)"
proof -
  note inv = replacer_invD [OF assms(1)]
  let ?r' = "erase_frame f r"
  have ns: "node_store ?r' = removeAll f (node_store r)" and ev: "evictable ?r' = (evictable r)(f := None)"
    and ah: "access_history ?r' = (access_history r)(f := None)" and cs: "curr_size ?r' = curr_size r - 1"
    and rest: "replacer_size ?r' = replacer_size r" "k_dist ?r' = k_dist r"
    by (simp_all add: erase_frame_def)
  have cnt: "Suc (length (filter (\<lambda>x. ((evictable r)(f := None)) x = Some True) (removeAll f (node_store r))))
        = unat (curr_size r)"
    using count_erase [of "node_store r" f "evictable r", OF inv(1) assms(2,3)] inv(5) by simp
  then have "curr_size r \<noteq> 0" by (metis Zero_not_Suc unat_0)
  then have dec: "unat (curr_size r - 1) = unat (curr_size r) - 1" by (simp add: unat_minus_one)
  show ?thesis
  proof (rule replacer_invI)
    show "distinct (node_store ?r')" using inv(1) by (simp add: ns distinct_removeAll)
    show "\<not> invalid_frame_id g ?r'" if "g \<in> set (node_store ?r')" for g
      using that inv(2) [of g] by (simp add: ns invalid_frame_id_def rest)
    show "access_history ?r' g \<noteq> None" if "g \<in> set (node_store ?r')" for g
      using that inv(3) [of g] by (simp add: ns ah)
    show "evictable ?r' g \<noteq> None" if "g \<in> set (node_store ?r')" for g
      using that inv(4) [of g] by (simp add: ns ev)
    show "unat (curr_size ?r') = length (filter (\<lambda>f. evictable ?r' f = Some True) (node_store ?r'))"
      using cnt dec by (simp add: ns ev cs)
  qed
qed

lemma replacer_inv_Remove:
  assumes "replacer_inv r" "Remove f r = Inr r'"
  shows "replacer_inv r'"
proof (cases "f \<in> set (node_store r)")
  case False
  then show ?thesis using assms by (simp add: Remove_def)
next
  case True
  then obtain cur where cur: "evictable r f = Some cur" using assms(1) by (auto simp: replacer_inv_def)
  then have "cur" "r' = erase_frame f r"
    using assms(2) True by (auto simp: Remove_def evictable_at_def split: if_splits)
  then show ?thesis using replacer_inv_erase_frame [OF assms(1) True] cur by simp
qed

section \<open>Guards: acquisition and release outside the pool latch\<close>

text \<open>
  What the constructors and \<open>Drop\<close> do when the calling thread does not own the pool
  latch, for a frame that the replacer tracks.
\<close>

lemma SetEvictable_tracked:
  assumes "\<not> invalid_frame_id f r" "f \<in> set (node_store r)" "evictable r f \<noteq> None"
  shows "\<exists>r'. SetEvictable f b r = Inr r' \<and> evictable r' f = Some b \<and>
           node_store r' = node_store r \<and> access_history r' = access_history r \<and>
           replacer_size r' = replacer_size r"
  using assms by (auto simp: SetEvictable_def evictable_at_def Let_def)

lemma locked_SetEvictable_ok:
  assumes "\<not> bpm_latch s" "\<not> invalid_frame_id f (replacer s)" "f \<in> set (node_store (replacer s))"
    "evictable (replacer s) f \<noteq> None"
  shows "\<exists>r'. locked_SetEvictable f b s = Inr (s\<lparr>replacer := r'\<rparr>) \<and> evictable r' f = Some b"
proof -
  obtain r' where r': "SetEvictable f b (replacer s) = Inr r'" "evictable r' f = Some b"
    using SetEvictable_tracked [OF assms(2-4)] by blast
  have "bpm_unlock (s\<lparr>bpm_latch := True, replacer := r'\<rparr>) = s\<lparr>replacer := r'\<rparr>"
    using assms(1) by (simp add: bpm_unlock_def)
  then have "locked_SetEvictable f b s = Inr (s\<lparr>replacer := r'\<rparr>)"
    using assms(1) r'(1) by (simp add: locked_SetEvictable_def bpm_lock_def)
  then show ?thesis using r'(2) by blast
qed

lemma guard_target_ok_put:
  assumes "guard_target_ok fid s" "frame_id fh = fid"
  shows "\<not> invalid_frame_id fid (replacer (frame_put fid fh s))"
    "fid \<in> set (node_store (replacer (frame_put fid fh s)))"
    "evictable (replacer (frame_put fid fh s)) fid \<noteq> None"
    "bpm_latch (frame_put fid fh s) = bpm_latch s"
    "frames (frame_put fid fh s) ! nat fid = fh"
  using assms by (simp_all add: guard_target_ok_def frame_put_def)

lemma WritePageGuard_ctor_ok:
  assumes "\<not> bpm_latch s" "guard_target_ok fid s" "latch_free (frames s ! nat fid)"
  shows "\<exists>s'. WritePageGuard_ctor pid fid s = Inr (\<lparr>page_id = pid, frame = Some fid, is_valid = True\<rparr>, s') \<and>
           pin_count (frames s' ! nat fid) = pin_count (frames s ! nat fid) + 1 \<and>
           evictable (replacer s') fid = Some False \<and>
           is_dirty (frames s' ! nat fid) \<and> rw_writer (frames s' ! nat fid)"
proof -
  let ?fh = "frames s ! nat fid"
  let ?fh2 = "?fh\<lparr>rw_writer := True, pin_count := pin_count ?fh + 1\<rparr>"
  have fa: "frame_at fid s = Inr ?fh" using assms(2) by (simp add: frame_at_def guard_target_ok_def)
  have lk: "rwlatch_lock ?fh = Inr (?fh\<lparr>rw_writer := True\<rparr>)"
    using assms(3) by (simp add: rwlatch_lock_def latch_free_def)
  have id: "frame_id ?fh2 = fid" using assms(2) by (simp add: guard_target_ok_def)
  note put = guard_target_ok_put [OF assms(2) id]
  obtain r' where r': "locked_SetEvictable fid False (frame_put fid ?fh2 s) = Inr ((frame_put fid ?fh2 s)\<lparr>replacer := r'\<rparr>)"
      "evictable r' fid = Some False"
    using locked_SetEvictable_ok [of "frame_put fid ?fh2 s" fid False] put assms(1) by auto
  have len: "nat fid < length (frames s)" using assms(2) by (simp add: guard_target_ok_def)
  show ?thesis using fa lk id r' len
    by (simp add: WritePageGuard_ctor_def Let_def frame_put_def)
qed

lemma ReadPageGuard_ctor_ok:
  assumes "\<not> bpm_latch s" "guard_target_ok fid s" "\<not> rw_writer (frames s ! nat fid)"
  shows "\<exists>s'. ReadPageGuard_ctor pid fid s = Inr (\<lparr>page_id = pid, frame = Some fid, is_valid = True\<rparr>, s') \<and>
           pin_count (frames s' ! nat fid) = pin_count (frames s ! nat fid) + 1 \<and>
           evictable (replacer s') fid = Some False \<and>
           is_dirty (frames s' ! nat fid) = is_dirty (frames s ! nat fid) \<and>
           rw_readers (frames s' ! nat fid) = rw_readers (frames s ! nat fid) + 1"
proof -
  let ?fh = "frames s ! nat fid"
  let ?fh2 = "?fh\<lparr>rw_readers := rw_readers ?fh + 1, pin_count := pin_count ?fh + 1\<rparr>"
  have fa: "frame_at fid s = Inr ?fh" using assms(2) by (simp add: frame_at_def guard_target_ok_def)
  have lk: "rwlatch_lock_shared ?fh = Inr (?fh\<lparr>rw_readers := rw_readers ?fh + 1\<rparr>)"
    using assms(3) by (simp add: rwlatch_lock_shared_def)
  have id: "frame_id ?fh2 = fid" using assms(2) by (simp add: guard_target_ok_def)
  note put = guard_target_ok_put [OF assms(2) id]
  obtain r' where r': "locked_SetEvictable fid False (frame_put fid ?fh2 s) = Inr ((frame_put fid ?fh2 s)\<lparr>replacer := r'\<rparr>)"
      "evictable r' fid = Some False"
    using locked_SetEvictable_ok [of "frame_put fid ?fh2 s" fid False] put assms(1) by auto
  have len: "nat fid < length (frames s)" using assms(2) by (simp add: guard_target_ok_def)
  show ?thesis using fa lk id r' len
    by (simp add: ReadPageGuard_ctor_def Let_def frame_put_def)
qed

lemma WritePageGuard_Drop_ok:
  assumes "\<not> bpm_latch s" "guard_target_ok fid s" "is_valid g" "frame g = Some fid"
    "rw_writer (frames s ! nat fid)"
  shows "\<exists>s'. WritePageGuard_Drop g s = Inr (invalidate g, s') \<and>
           pin_count (frames s' ! nat fid) = pin_count (frames s ! nat fid) - 1 \<and>
           \<not> rw_writer (frames s' ! nat fid) \<and>
           (if pin_count (frames s ! nat fid) = 1 then evictable (replacer s') fid = Some True
            else replacer s' = replacer s)"
proof -
  let ?fh = "frames s ! nat fid"
  let ?fh1 = "?fh\<lparr>pin_count := pin_count ?fh - 1, rw_writer := False\<rparr>"
  have gf: "guard_frame g s = Inr (fid, ?fh)"
    using assms(2,4) by (simp add: guard_frame_def frame_at_def guard_target_ok_def)
  have ul: "rwlatch_unlock (?fh\<lparr>pin_count := pin_count ?fh - 1\<rparr>) = Inr ?fh1"
    using assms(5) by (simp add: rwlatch_unlock_def)
  have id: "frame_id ?fh1 = fid" using assms(2) by (simp add: guard_target_ok_def)
  note put = guard_target_ok_put [OF assms(2) id]
  have len: "nat fid < length (frames s)" using assms(2) by (simp add: guard_target_ok_def)
  show ?thesis
  proof (cases "pin_count ?fh = 1")
    case True
    obtain r' where r': "locked_SetEvictable fid True (frame_put fid ?fh1 s) = Inr ((frame_put fid ?fh1 s)\<lparr>replacer := r'\<rparr>)"
      "evictable r' fid = Some True"
      using locked_SetEvictable_ok [of "frame_put fid ?fh1 s" fid True] put assms(1) by auto
    show ?thesis using True assms(3) gf ul id r' len
      by (simp add: WritePageGuard_Drop_def Let_def frame_put_def)
  next
    case False
    show ?thesis using False assms(3) gf ul id len
      by (simp add: WritePageGuard_Drop_def Let_def frame_put_def)
  qed
qed

lemma ReadPageGuard_Drop_ok:
  assumes "\<not> bpm_latch s" "guard_target_ok fid s" "is_valid g" "frame g = Some fid"
    "rw_readers (frames s ! nat fid) \<noteq> 0"
  shows "\<exists>s'. ReadPageGuard_Drop g s = Inr (invalidate g, s') \<and>
           pin_count (frames s' ! nat fid) = pin_count (frames s ! nat fid) - 1 \<and>
           rw_readers (frames s' ! nat fid) = rw_readers (frames s ! nat fid) - 1 \<and>
           (if pin_count (frames s ! nat fid) = 1 then evictable (replacer s') fid = Some True
            else replacer s' = replacer s)"
proof -
  let ?fh = "frames s ! nat fid"
  let ?fh1 = "?fh\<lparr>pin_count := pin_count ?fh - 1, rw_readers := rw_readers ?fh - 1\<rparr>"
  have gf: "guard_frame g s = Inr (fid, ?fh)"
    using assms(2,4) by (simp add: guard_frame_def frame_at_def guard_target_ok_def)
  have ul: "rwlatch_unlock_shared (?fh\<lparr>pin_count := pin_count ?fh - 1\<rparr>) = Inr ?fh1"
    using assms(5) by (simp add: rwlatch_unlock_shared_def)
  have id: "frame_id ?fh1 = fid" using assms(2) by (simp add: guard_target_ok_def)
  note put = guard_target_ok_put [OF assms(2) id]
  have len: "nat fid < length (frames s)" using assms(2) by (simp add: guard_target_ok_def)
  show ?thesis
  proof (cases "pin_count ?fh = 1")
    case True
    obtain r' where r': "locked_SetEvictable fid True (frame_put fid ?fh1 s) = Inr ((frame_put fid ?fh1 s)\<lparr>replacer := r'\<rparr>)"
      "evictable r' fid = Some True"
      using locked_SetEvictable_ok [of "frame_put fid ?fh1 s" fid True] put assms(1) by auto
    show ?thesis using True assms(3) gf ul id r' len
      by (simp add: ReadPageGuard_Drop_def Let_def frame_put_def)
  next
    case False
    show ?thesis using False assms(3) gf ul id len
      by (simp add: ReadPageGuard_Drop_def Let_def frame_put_def)
  qed
qed

section \<open>Guards: acquisition from the manager\<close>

lemma s_new_eq:
  "s_new =
     \<lparr>num_frames = 1, next_page_id = 0, bpm_latch = False,
      frames = [\<lparr>frame_id = 0, data = [0, 0], pin_count = 0, is_dirty = False,
                 rw_readers = 0, rw_writer = False\<rparr>],
      page_table = [], free_frames = [0],
      replacer = \<lparr>node_store = [], access_history = Map.empty, evictable = Map.empty,
         current_timestamp = 0, curr_size = 0, replacer_size = 1, k_dist = 2\<rparr>,
      disk_scheduler = \<lparr>disk_pages = (\<lambda>_. [0x5A, 0x5B]), request_log = []\<rparr>\<rparr>"
  by (simp add: s_new_def BufferPoolManager_new_def FrameHeader_new_def Reset_def
      LRUKReplacer_new_def numeral_2_eq_2)

lemma locked_SetEvictable_held: "bpm_latch s \<Longrightarrow> locked_SetEvictable f b s = Inl Deadlock"
  by (simp add: locked_SetEvictable_def bpm_lock_def)

lemma frame_put_latch [simp]: "bpm_latch (frame_put fid fh s) = bpm_latch s"
  by (simp add: frame_put_def)

lemma ReadPageGuard_ctor_held:
  assumes "bpm_latch s"
  shows "\<exists>e. ReadPageGuard_ctor pid fid s = Inl e"
  using assms
  by (auto simp: ReadPageGuard_ctor_def and_then_def Let_def locked_SetEvictable_held
      split: sum.splits)

lemma WritePageGuard_ctor_held:
  assumes "bpm_latch s"
  shows "\<exists>e. WritePageGuard_ctor pid fid s = Inl e"
  using assms
  by (auto simp: WritePageGuard_ctor_def and_then_def Let_def locked_SetEvictable_held
      split: sum.splits)

lemma Schedule_and_wait_latch:
  "Schedule_and_wait req s = Inr s' \<Longrightarrow> bpm_latch s' = bpm_latch s"
  by (auto simp: Schedule_and_wait_def and_then_def Let_def split: if_splits option.splits sum.splits)

lemma write_and_clean_latch:
  "write_and_clean pid fid s = Inr s' \<Longrightarrow> bpm_latch s' = bpm_latch s"
  by (auto simp: write_and_clean_def and_then_def dest!: Schedule_and_wait_latch split: sum.splits)

lemma write_back_victim_latch:
  "write_back_victim fid s = Inr s' \<Longrightarrow> bpm_latch s' = bpm_latch s"
  by (auto simp: write_back_victim_def and_then_def dest!: write_and_clean_latch
      split: option.splits sum.splits if_splits)

lemma acquire_frame_latch:
  "acquire_frame s = Inr (fo, s') \<Longrightarrow> bpm_latch s' = bpm_latch s"
  by (auto simp: acquire_frame_def and_then_def dest!: write_back_victim_latch
      split: list.splits option.splits sum.splits prod.splits)

lemma load_page_latch:
  "load_page pid fid s = Inr s' \<Longrightarrow> bpm_latch s' = bpm_latch s"
  by (auto simp: load_page_def and_then_def Let_def dest!: Schedule_and_wait_latch
      split: sum.splits)

lemma CheckedReadPage_no_guard: "CheckedReadPage pid s \<noteq> Inr (Some g, s')"
proof
  assume a: "CheckedReadPage pid s = Inr (Some g, s')"
  then have nl: "\<not> bpm_latch s"
    by (auto simp: CheckedReadPage_def bpm_lock_def split: if_splits)
  let ?s1 = "s\<lparr>bpm_latch := True\<rparr>"
  show False
  proof (cases "map_of (page_table s) pid")
    case (Some fid)
    from a nl Some obtain r where "RecordAccess fid (replacer s) = Inr r"
      and "\<exists>s2. ReadPageGuard_ctor pid fid (?s1\<lparr>replacer := r\<rparr>) = Inr (g, s2)"
      by (auto simp: CheckedReadPage_def bpm_lock_def and_then_def split: sum.splits)
    then show False using ReadPageGuard_ctor_held [of "?s1\<lparr>replacer := r\<rparr>" pid fid] by auto
  next
    case None
    from a nl None obtain use_fid s2 s3 where af: "acquire_frame ?s1 = Inr (Some use_fid, s2)"
      and lp: "load_page pid use_fid s2 = Inr s3"
      and ct: "\<exists>s4. ReadPageGuard_ctor pid use_fid s3 = Inr (g, s4)"
      by (auto simp: CheckedReadPage_def bpm_lock_def and_then_def split: sum.splits option.splits)
    have "bpm_latch s3" using acquire_frame_latch [OF af] load_page_latch [OF lp] by simp
    then show False using ct ReadPageGuard_ctor_held [of s3 pid use_fid] by auto
  qed
qed

section \<open>Inert guards\<close>

lemma move_assign_source_inert:
  assumes "this \<noteq> that"
  shows "ReadPageGuard_move_assign this that (G, s) = Inr (G', s') \<Longrightarrow> \<not> is_valid (G' that)"
    and "WritePageGuard_move_assign this that (G, s) = Inr (G', s') \<Longrightarrow> \<not> is_valid (G' that)"
  using assms
  by (auto simp: ReadPageGuard_move_assign_def WritePageGuard_move_assign_def and_then_def
      move_into_def Let_def split: sum.splits)

text \<open>
  C7. For an inert guard (\<open>is_valid\<close> false, as a moved-from guard and a dropped guard
  are): \<open>GetPageId\<close>, \<open>GetData\<close>, \<open>GetDataMut\<close>, \<open>IsDirty\<close> and \<open>Flush\<close> fail the
  \<^verbatim>\<open>BUSTUB_ENSURE\<close> check, which terminates the process; both \<open>Drop\<close>s return at once and
  leave the guard and the manager state (pin counts, latches, replacer) as they were.
  Moving out of a guard and dropping a guard leave it inert, and after a move assignment
  between two different guards the source is inert. A guard move-assigned to itself is
  unchanged, whatever its state, and so is the manager state.
\<close>

theorem inert_guard:
  assumes "\<not> is_valid g"
  shows "GetPageId g = Inl EnsureFailed \<and> GetData g s = Inl EnsureFailed \<and>
         GetDataMut g s = Inl EnsureFailed \<and> IsDirty g s = Inl EnsureFailed \<and>
         Flush g s = Inl EnsureFailed \<and>
         ReadPageGuard_Drop g s = Inr (g, s) \<and> WritePageGuard_Drop g s = Inr (g, s) \<and>
         \<not> is_valid (snd (PageGuard_move g')) \<and> \<not> is_valid (invalidate g') \<and>
         (\<forall>G' s'. this \<noteq> that \<longrightarrow>
              ReadPageGuard_move_assign this that (G, s) = Inr (G', s') \<longrightarrow> \<not> is_valid (G' that)) \<and>
         (\<forall>G' s'. this \<noteq> that \<longrightarrow>
              WritePageGuard_move_assign this that (G, s) = Inr (G', s') \<longrightarrow> \<not> is_valid (G' that)) \<and>
         ReadPageGuard_move_assign a a (G, s) = Inr (G, s) \<and>
         WritePageGuard_move_assign a a (G, s) = Inr (G, s)"
  using assms move_assign_source_inert [of this that G s]
  by (simp add: GetPageId_def GetData_def GetDataMut_def IsDirty_def Flush_def BUSTUB_ENSURE_def
      ReadPageGuard_Drop_def WritePageGuard_Drop_def PageGuard_move_def invalidate_def
      ReadPageGuard_move_assign_def WritePageGuard_move_assign_def)

theorem inert_guard_witness:
  "\<not> is_valid (invalidate g_ex) \<and> is_valid (G_ex 0) \<and>
   GetPageId (invalidate g_ex) = Inl EnsureFailed \<and>
   GetData (invalidate g_ex) s_ex = Inl EnsureFailed \<and>
   Flush (invalidate g_ex) s_ex = Inl EnsureFailed \<and>
   ReadPageGuard_Drop (invalidate g_ex) s_ex = Inr (invalidate g_ex, s_ex) \<and>
   WritePageGuard_move_assign 0 0 (G_ex, s_ex) = Inr (G_ex, s_ex)"
proof -
  have i: "\<not> is_valid (invalidate g_ex)" by (simp add: invalidate_def)
  have v: "is_valid (G_ex 0)" by (simp add: G_ex_def g_ex_def)
  show ?thesis using inert_guard [OF i, of s_ex g_ex 0 1 G_ex 0] i v by simp
qed

section \<open>Deleting a page and the replacer's history\<close>

lemmas eval_defs = DeletePage_def bpm_lock_def bpm_unlock_def frame_at_def frame_put_def Reset_def
  Schedule_and_wait_def deallocate_request_def read_request_def write_request_def DiskRequest_init_def
  Let_def SetEvictable_def RecordAccess_def invalid_frame_id_def evictable_at_def access_history_at_def
  acquire_frame_def load_page_def DiskManager_ReadPage_def DiskManager_WritePage_def
  AList.delete_eq

lemma s_ex_DeletePage: "DeletePage 7 s_ex = Inr (True, s_ex_deleted)"
  by (simp add: s_ex_def s_ex_deleted_def eval_defs fun_upd_twist)

lemma s_ex_deleted_recycle:
  "\<exists>s1 s2. acquire_frame (s_ex_deleted\<lparr>bpm_latch := True\<rparr>) = Inr (Some 0, s1) \<and>
     load_page 9 0 s1 = Inr s2 \<and> access_history (replacer s2) 0 = Some [1, 3]"
  by (simp add: s_ex_def s_ex_deleted_def eval_defs)

section \<open>Which disk waits happen under the pool latch\<close>

lemma log_grows_refl: "log_grows b s s"
  by (simp add: log_grows_def)

lemma log_grows_trans: "log_grows b s s1 \<Longrightarrow> log_grows b s1 s2 \<Longrightarrow> log_grows b s s2"
  by (auto simp: log_grows_def)

lemma log_grows_frame_put: "log_grows b s s1 \<Longrightarrow> log_grows b s (frame_put fid fh s1)"
  by (simp add: log_grows_def frame_put_def)

lemma log_grows_frame_put_left: "log_grows b (frame_put fid fh s) s1 \<Longrightarrow> log_grows b s s1"
  by (simp add: log_grows_def frame_put_def)

lemma Schedule_and_wait_grows:
  "Schedule_and_wait req s = Inr s' \<Longrightarrow> log_grows (bpm_latch s) s s'"
  by (auto simp: Schedule_and_wait_def and_then_def Let_def log_grows_def frame_put_def
      split: if_splits option.splits sum.splits)

lemma write_and_clean_grows:
  assumes "write_and_clean pid fid s = Inr s'"
  shows "log_grows (bpm_latch s) s s'"
proof -
  from assms obtain s1 fh where a: "Schedule_and_wait (write_request pid fid) s = Inr s1"
    and b: "s' = frame_put fid fh s1"
    by (auto simp: write_and_clean_def and_then_def split: sum.splits)
  show ?thesis using Schedule_and_wait_grows [OF a] b by (simp add: log_grows_frame_put)
qed

lemma flush_under_frame_latch_grows:
  assumes "flush_under_frame_latch pid fid s = Inr s'"
  shows "log_grows (bpm_latch s) s s'"
proof -
  from assms obtain fh1 s1 fh3 where
    a: "(if \<not> is_dirty fh1 then Inr (frame_put fid fh1 s)
         else write_and_clean pid fid (frame_put fid fh1 s)) = Inr s1"
    and b: "s' = frame_put fid fh3 s1"
    by (auto simp: flush_under_frame_latch_def and_then_def split: sum.splits)
  have "log_grows (bpm_latch s) (frame_put fid fh1 s) s1"
  proof (cases "is_dirty fh1")
    case True
    then show ?thesis using a write_and_clean_grows [of pid fid "frame_put fid fh1 s" s1]
      by (simp add: frame_put_def)
  next
    case False
    then show ?thesis using a by (auto simp: log_grows_refl)
  qed
  then show ?thesis using b log_grows_frame_put log_grows_frame_put_left by blast
qed

lemma FlushAllPages_loop_grows:
  "FlushAllPages_loop ts s = Inr s' \<Longrightarrow> log_grows (bpm_latch s) s s'"
proof (induction ts arbitrary: s)
  case Nil
  then show ?case by (simp add: log_grows_refl)
next
  case (Cons t ts)
  obtain pid fid where t: "t = (pid, fid)" by (cases t)
  from Cons.prems t obtain s1 where a: "flush_under_frame_latch pid fid s = Inr s1"
    and b: "FlushAllPages_loop ts s1 = Inr s'"
    by (auto simp: and_then_def split: sum.splits)
  have g1: "log_grows (bpm_latch s) s s1" using a by (rule flush_under_frame_latch_grows)
  then have "bpm_latch s1 = bpm_latch s" by (simp add: log_grows_def)
  then have "log_grows (bpm_latch s) s1 s'" using Cons.IH [OF b] by simp
  then show ?case using g1 log_grows_trans by blast
qed

lemma FlushAllPagesUnsafe_loop_grows:
  "FlushAllPagesUnsafe_loop kvs s = Inr s' \<Longrightarrow> log_grows (bpm_latch s) s s'"
proof (induction kvs arbitrary: s)
  case Nil
  then show ?case by (simp add: log_grows_refl)
next
  case (Cons kv kvs)
  obtain pid fid where kv: "kv = (pid, fid)" by (cases kv)
  from Cons.prems kv obtain fh :: FrameHeader and s1 where
    a: "(if \<not> is_dirty fh then Inr s else write_and_clean pid fid s) = Inr s1"
    and b: "FlushAllPagesUnsafe_loop kvs s1 = Inr s'"
    by (auto simp: and_then_def split: sum.splits)
  have g1: "log_grows (bpm_latch s) s s1"
    using a write_and_clean_grows [of pid fid s s1] by (cases "is_dirty fh") (auto simp: log_grows_refl)
  then have "bpm_latch s1 = bpm_latch s" by (simp add: log_grows_def)
  then have "log_grows (bpm_latch s) s1 s'" using Cons.IH [OF b] by simp
  then show ?case using g1 log_grows_trans by blast
qed

lemma log_grows_new_waits:
  assumes "log_grows b s1 s2"
    "request_log (disk_scheduler s1) = request_log (disk_scheduler s)"
    "request_log (disk_scheduler s') = request_log (disk_scheduler s2)"
  shows "list_all (\<lambda>e. snd e = b) (new_waits s s')"
  using assms by (auto simp: log_grows_def new_waits_def)

lemma FlushPage_waits:
  assumes "\<not> bpm_latch s" "FlushPage pid s = Inr (b, s')"
  shows "waits_outside_pool_latch s s'"
proof (cases "map_of (page_table s) pid")
  case None
  then have "s' = s" using assms by (auto simp: FlushPage_def bpm_lock_def bpm_unlock_def)
  then show ?thesis by (simp add: waits_outside_pool_latch_def new_waits_def)
next
  case (Some fid)
  let ?s1 = "bpm_unlock (s\<lparr>bpm_latch := True\<rparr>)"
  from assms Some have "flush_under_frame_latch pid fid ?s1 = Inr s'"
    by (auto simp: FlushPage_def bpm_lock_def and_then_def split: sum.splits)
  from flush_under_frame_latch_grows [OF this]
  have "log_grows False ?s1 s'" by (simp add: bpm_unlock_def)
  from log_grows_new_waits [OF this, of s s']
  show ?thesis by (simp add: waits_outside_pool_latch_def bpm_unlock_def)
qed

lemma FlushAllPages_waits:
  assumes "\<not> bpm_latch s" "FlushAllPages s = Inr s'"
  shows "waits_outside_pool_latch s s'"
proof -
  let ?s1 = "bpm_unlock (s\<lparr>bpm_latch := True\<rparr>)"
  from assms obtain ts where "FlushAllPages_loop ts ?s1 = Inr s'"
    by (auto simp: FlushAllPages_def bpm_lock_def and_then_def split: sum.splits)
  from FlushAllPages_loop_grows [OF this]
  have "log_grows False ?s1 s'" by (simp add: bpm_unlock_def)
  from log_grows_new_waits [OF this, of s s']
  show ?thesis by (simp add: waits_outside_pool_latch_def bpm_unlock_def)
qed

lemma Flush_waits:
  assumes "\<not> bpm_latch s" "Flush g s = Inr s'"
  shows "waits_outside_pool_latch s s'"
proof -
  from assms(2) have "s' = s \<or> (\<exists>fid. write_and_clean (page_id g) fid s = Inr s')"
    by (auto simp: Flush_def and_then_def split: sum.splits if_splits)
  then show ?thesis
  proof
    assume "s' = s"
    then show ?thesis by (simp add: waits_outside_pool_latch_def new_waits_def)
  next
    assume "\<exists>fid. write_and_clean (page_id g) fid s = Inr s'"
    then obtain fid where "write_and_clean (page_id g) fid s = Inr s'" ..
    from write_and_clean_grows [OF this] assms(1) have "log_grows False s s'" by simp
    from log_grows_new_waits [OF this, of s s']
    show ?thesis by (simp add: waits_outside_pool_latch_def)
  qed
qed

lemma DeletePage_waits:
  assumes "\<not> bpm_latch s" "DeletePage pid s = Inr (True, s')"
  shows "new_waits s s' = [(deallocate_request pid, True)]"
  using assms
  by (auto simp: DeletePage_def bpm_lock_def bpm_unlock_def and_then_def Let_def new_waits_def
      Schedule_and_wait_def deallocate_request_def DiskRequest_init_def frame_put_def
      split: sum.splits option.splits if_splits)

lemma FlushPageUnsafe_waits:
  assumes "\<not> bpm_latch s" "FlushPageUnsafe pid s = Inr (b, s')"
  shows "waits_under_pool_latch s s'"
proof -
  let ?s1 = "s\<lparr>bpm_latch := True\<rparr>"
  from assms have "s' = bpm_unlock ?s1 \<or>
      (\<exists>fid s2. write_and_clean pid fid ?s1 = Inr s2 \<and> s' = bpm_unlock s2)"
    by (auto simp: FlushPageUnsafe_def bpm_lock_def and_then_def split: sum.splits option.splits if_splits)
  then show ?thesis
  proof
    assume "s' = bpm_unlock ?s1"
    then show ?thesis by (simp add: waits_under_pool_latch_def new_waits_def bpm_unlock_def)
  next
    assume "\<exists>fid s2. write_and_clean pid fid ?s1 = Inr s2 \<and> s' = bpm_unlock s2"
    then obtain fid s2 where w: "write_and_clean pid fid ?s1 = Inr s2" and s': "s' = bpm_unlock s2"
      by blast
    from write_and_clean_grows [OF w] have "log_grows True ?s1 s2" by simp
    from log_grows_new_waits [OF this, of s s'] s'
    show ?thesis by (simp add: waits_under_pool_latch_def bpm_unlock_def)
  qed
qed

lemma FlushAllPagesUnsafe_waits:
  assumes "\<not> bpm_latch s" "FlushAllPagesUnsafe s = Inr s'"
  shows "waits_under_pool_latch s s'"
proof -
  let ?s1 = "s\<lparr>bpm_latch := True\<rparr>"
  from assms obtain s2 where l: "FlushAllPagesUnsafe_loop (page_table ?s1) ?s1 = Inr s2"
    and s': "s' = bpm_unlock s2"
    by (auto simp: FlushAllPagesUnsafe_def bpm_lock_def and_then_def split: sum.splits)
  from FlushAllPagesUnsafe_loop_grows [OF l] have "log_grows True ?s1 s2" by simp
  from log_grows_new_waits [OF this, of s s'] s'
  show ?thesis by (simp add: waits_under_pool_latch_def bpm_unlock_def)
qed

lemma write_back_victim_grows:
  assumes "write_back_victim fid s = Inr s'"
  shows "log_grows (bpm_latch s) s s'"
proof (cases "FindPageIdByFrame (page_table s) fid")
  case None
  then show ?thesis using assms by (simp add: write_back_victim_def log_grows_refl)
next
  case (Some victim_pid)
  from assms Some obtain fh :: FrameHeader and s1 where
    a: "(if is_dirty fh then write_and_clean victim_pid fid s else Inr s) = Inr s1"
    and b: "s' = s1\<lparr>page_table := AList.delete victim_pid (page_table s1)\<rparr>"
    by (auto simp: write_back_victim_def and_then_def split: sum.splits)
  have "log_grows (bpm_latch s) s s1"
    using a write_and_clean_grows [of victim_pid fid s s1] by (cases "is_dirty fh") (auto simp: log_grows_refl)
  then show ?thesis using b by (simp add: log_grows_def)
qed

lemma acquire_frame_grows:
  assumes "acquire_frame s = Inr (fo, s')"
  shows "log_grows (bpm_latch s) s s'"
proof (cases "free_frames s")
  case (Cons f fs)
  then show ?thesis using assms by (auto simp: acquire_frame_def log_grows_def)
next
  case Nil
  from assms Nil obtain vo r where ev: "Evict (replacer s) = Inr (vo, r)"
    by (auto simp: acquire_frame_def and_then_def split: sum.splits)
  show ?thesis
  proof (cases vo)
    case None
    then show ?thesis using assms Nil ev by (auto simp: acquire_frame_def log_grows_def)
  next
    case (Some use_fid)
    then have "write_back_victim use_fid (s\<lparr>replacer := r\<rparr>) = Inr s'"
      using assms Nil ev by (auto simp: acquire_frame_def and_then_def split: sum.splits)
    from write_back_victim_grows [OF this] show ?thesis by (simp add: log_grows_def)
  qed
qed

lemma load_page_log:
  assumes "load_page pid fid s = Inr s'"
  shows "bpm_latch s' = bpm_latch s \<and>
         request_log (disk_scheduler s') =
           request_log (disk_scheduler s) @ [(read_request pid fid, bpm_latch s)]"
  using assms
  by (auto simp: load_page_def and_then_def Let_def Schedule_and_wait_def read_request_def
      DiskRequest_init_def frame_put_def split: sum.splits if_splits)

lemma miss_resolution_waits:
  assumes "acquire_frame (s\<lparr>bpm_latch := True\<rparr>) = Inr (Some f, s1)" "load_page pid f s1 = Inr s2"
  shows "waits_under_pool_latch s s2 \<and> last (new_waits s s2) = (read_request pid f, True)"
proof -
  from acquire_frame_grows [OF assms(1)]
  obtain new where l1: "bpm_latch s1" and
    n1: "request_log (disk_scheduler s1) = request_log (disk_scheduler s) @ new" "list_all snd new"
    by (auto simp: log_grows_def)
  from load_page_log [OF assms(2)] l1 n1(1)
  have "request_log (disk_scheduler s2) = request_log (disk_scheduler s) @ new @ [(read_request pid f, True)]"
    by simp
  then have "new_waits s s2 = new @ [(read_request pid f, True)]" by (simp add: new_waits_def)
  then show ?thesis using n1(2) by (simp add: waits_under_pool_latch_def)
qed

text \<open>
  C8 (amended). For a call made by a thread that does not own the pool latch: every disk
  wait of \<open>FlushPage\<close>, of \<open>FlushAllPages\<close> and of a guard's \<open>Flush\<close> happens outside the
  pool latch. Miss resolution (choosing a frame and loading the page, which
  \<open>CheckedReadPage\<close> and \<open>CheckedWritePage\<close> do under the pool latch) waits under it, the
  read-in being the last of its waits. \<open>DeletePage\<close>, when it returns true, has waited
  once, for the deallocation, under the pool latch; the waits of \<open>FlushPageUnsafe\<close> and of
  \<open>FlushAllPagesUnsafe\<close> all happen under the pool latch.
\<close>

theorem pool_latch_across_disk_waits:
  assumes "\<not> bpm_latch s"
  shows "(\<forall>b s'. FlushPage pid s = Inr (b, s') \<longrightarrow> waits_outside_pool_latch s s') \<and>
         (\<forall>s'. FlushAllPages s = Inr s' \<longrightarrow> waits_outside_pool_latch s s') \<and>
         (\<forall>s'. Flush g s = Inr s' \<longrightarrow> waits_outside_pool_latch s s') \<and>
         (\<forall>f s1 s2. acquire_frame (s\<lparr>bpm_latch := True\<rparr>) = Inr (Some f, s1) \<longrightarrow>
              load_page pid f s1 = Inr s2 \<longrightarrow>
              waits_under_pool_latch s s2 \<and> last (new_waits s s2) = (read_request pid f, True)) \<and>
         (\<forall>s'. DeletePage pid s = Inr (True, s') \<longrightarrow>
              new_waits s s' = [(deallocate_request pid, True)]) \<and>
         (\<forall>b s'. FlushPageUnsafe pid s = Inr (b, s') \<longrightarrow> waits_under_pool_latch s s') \<and>
         (\<forall>s'. FlushAllPagesUnsafe s = Inr s' \<longrightarrow> waits_under_pool_latch s s')"
  using FlushPage_waits [OF assms] FlushAllPages_waits [OF assms] Flush_waits [OF assms]
    miss_resolution_waits DeletePage_waits [OF assms] FlushPageUnsafe_waits [OF assms]
    FlushAllPagesUnsafe_waits [OF assms]
  by blast

text \<open>
  C8 as stated fails: on a new pool, \<open>DeletePage 0\<close> waits for the completion of its
  deallocation request while it owns the pool latch.
\<close>

theorem DeletePage_waits_under_pool_latch:
  "\<not> bpm_latch s_new \<and>
   (\<exists>s'. DeletePage 0 s_new = Inr (True, s') \<and> new_waits s_new s' = [(deallocate_request 0, True)] \<and>
         \<not> waits_outside_pool_latch s_new s')"
  by (simp add: s_new_eq DeletePage_def bpm_lock_def bpm_unlock_def Schedule_and_wait_def
      deallocate_request_def DiskRequest_init_def Let_def new_waits_def waits_outside_pool_latch_def)

theorem pool_latch_across_disk_waits_witness:
  "\<not> bpm_latch s_ex \<and>
   FlushPage 7 s_ex = Inr (True, written_back 7 0 s_ex) \<and>
   new_waits s_ex (written_back 7 0 s_ex) = [(write_request 7 0, False)] \<and>
   waits_outside_pool_latch s_ex (written_back 7 0 s_ex) \<and>
   (\<exists>s'. DeletePage 7 s_ex = Inr (True, s') \<and> new_waits s_ex s' = [(deallocate_request 7, True)]) \<and>
   (\<exists>s'. FlushPageUnsafe 7 s_ex = Inr (True, s') \<and> new_waits s_ex s' = [(write_request 7 0, True)] \<and>
         waits_under_pool_latch s_ex s')"
proof -
  note t = pool_latch_across_disk_waits [OF s_ex_unlocked]
  have "resident_latch_free 7 s_ex"
    by (simp add: resident_latch_free_def s_ex_lookup s_ex_frames latch_free_def)
  from FlushPage_eq [OF s_ex_unlocked s_ex_wf this]
  have fp: "FlushPage 7 s_ex = Inr (True, written_back 7 0 s_ex)"
    by (simp add: flush_result_def s_ex_lookup s_ex_frames)
  have nw: "new_waits s_ex (written_back 7 0 s_ex) = [(write_request 7 0, False)]"
    by (simp add: new_waits_def written_back_def s_ex_unlocked)
  have w1: "waits_outside_pool_latch s_ex (written_back 7 0 s_ex)"
    using t [of 7] fp by blast
  obtain s1 where d: "DeletePage 7 s_ex = Inr (True, s1)"
    using s_ex_DeletePage by blast
  have d1: "new_waits s_ex s1 = [(deallocate_request 7, True)]"
    using t [of 7] d by blast
  have u: "FlushPageUnsafe 7 s_ex = Inr (True, bpm_unlock (written_back 7 0 (s_ex\<lparr>bpm_latch := True\<rparr>)))"
    using write_and_clean_eq [of 0 "s_ex\<lparr>bpm_latch := True\<rparr>" 7]
    by (simp add: FlushPageUnsafe_def bpm_lock_def s_ex_unlocked s_ex_lookup frame_at_def s_ex_frames)
  have u1: "new_waits s_ex (bpm_unlock (written_back 7 0 (s_ex\<lparr>bpm_latch := True\<rparr>))) = [(write_request 7 0, True)]"
    by (simp add: new_waits_def written_back_def bpm_unlock_def)
  have u2: "waits_under_pool_latch s_ex (bpm_unlock (written_back 7 0 (s_ex\<lparr>bpm_latch := True\<rparr>)))"
    using t [of 7] u by blast
  show ?thesis using s_ex_unlocked fp nw w1 d d1 u u1 u2 by blast
qed

section \<open>Fetching a page never returns a guard\<close>

text \<open>
  \<open>CheckedWritePage\<close> and \<open>CheckedReadPage\<close> lock the pool latch on entry and construct the
  guard while they still own it; the guard's constructor locks the same latch. The latch
  is an \<^verbatim>\<open>std::mutex\<close>, so the second \<^verbatim>\<open>lock()\<close> by its owner does not return.
\<close>

lemma CheckedWritePage_no_guard: "CheckedWritePage pid s \<noteq> Inr (Some g, s')"
proof
  assume a: "CheckedWritePage pid s = Inr (Some g, s')"
  then have nl: "\<not> bpm_latch s"
    by (auto simp: CheckedWritePage_def bpm_lock_def split: if_splits)
  let ?s1 = "s\<lparr>bpm_latch := True\<rparr>"
  show False
  proof (cases "map_of (page_table s) pid")
    case (Some fid)
    from a nl Some obtain r where "RecordAccess fid (replacer s) = Inr r"
      and "\<exists>s2. WritePageGuard_ctor pid fid (?s1\<lparr>replacer := r\<rparr>) = Inr (g, s2)"
      by (auto simp: CheckedWritePage_def bpm_lock_def and_then_def split: sum.splits)
    then show False using WritePageGuard_ctor_held [of "?s1\<lparr>replacer := r\<rparr>" pid fid] by auto
  next
    case None
    from a nl None obtain use_fid s2 s3 where af: "acquire_frame ?s1 = Inr (Some use_fid, s2)"
      and lp: "load_page pid use_fid s2 = Inr s3"
      and ct: "\<exists>s4. WritePageGuard_ctor pid use_fid s3 = Inr (g, s4)"
      by (auto simp: CheckedWritePage_def bpm_lock_def and_then_def split: sum.splits option.splits)
    have "bpm_latch s3" using acquire_frame_latch [OF af] load_page_latch [OF lp] by simp
    then show False using ct WritePageGuard_ctor_held [of s3 pid use_fid] by auto
  qed
qed

lemmas fetch_defs = CheckedReadPage_def CheckedWritePage_def ReadPageGuard_ctor_def
  WritePageGuard_ctor_def rwlatch_lock_shared_def rwlatch_lock_def locked_SetEvictable_def

text \<open>
  C1. The round trip (write bytes through a write guard, drop it, fetch the page again and
  read the same bytes) needs a guard, and this code produces none: in no state does
  \<open>CheckedWritePage\<close> return a guard, \<open>WritePage\<close> never returns normally, and on a new pool
  \<open>CheckedWritePage 0\<close> ends in the deadlock on the pool latch.
\<close>

theorem CheckedWritePage_never_yields_guard:
  "CheckedWritePage pid s \<noteq> Inr (Some g, s') \<and> WritePage pid s \<noteq> Inr (g, s') \<and>
   CheckedWritePage 0 s_new = Inl Deadlock"
proof -
  have a: "CheckedWritePage pid s \<noteq> Inr (Some g, s')" by (rule CheckedWritePage_no_guard)
  have b: "WritePage pid s \<noteq> Inr (g, s')"
    using CheckedWritePage_no_guard [of pid s g s']
    by (auto simp: WritePage_def and_then_def split: sum.splits option.splits)
  have c: "CheckedWritePage 0 s_new = Inl Deadlock"
    by (simp add: s_new_eq eval_defs fetch_defs)
  show ?thesis using a b c by blast
qed

text \<open>
  C9. Guard acquisition while the manager holds the pool latch is not safe on this code:
  in no state does \<open>CheckedReadPage\<close> return a guard, and \<open>ReadPage\<close> never returns
  normally. On a new pool \<open>CheckedReadPage 0\<close> (miss resolution) ends in the deadlock on
  the pool latch, and so does \<open>CheckedReadPage 7\<close> on the resident, unpinned page 7 of
  \<open>s_ex\<close> (a hit).
\<close>

theorem CheckedReadPage_self_deadlock:
  "CheckedReadPage pid s \<noteq> Inr (Some g, s') \<and> ReadPage pid s \<noteq> Inr (g, s') \<and>
   CheckedReadPage 0 s_new = Inl Deadlock \<and> CheckedReadPage 7 s_ex = Inl Deadlock"
proof -
  have a: "CheckedReadPage pid s \<noteq> Inr (Some g, s')" by (rule CheckedReadPage_no_guard)
  have b: "ReadPage pid s \<noteq> Inr (g, s')"
    using CheckedReadPage_no_guard [of pid s g s']
    by (auto simp: ReadPage_def and_then_def split: sum.splits option.splits)
  have c: "CheckedReadPage 0 s_new = Inl Deadlock"
    by (simp add: s_new_eq eval_defs fetch_defs)
  have d: "CheckedReadPage 7 s_ex = Inl Deadlock"
    by (simp add: s_ex_def eval_defs fetch_defs)
  show ?thesis using a b c d by blast
qed

text \<open>
  C6. Where the manager acquires a guard it owns the pool latch, and there neither
  constructor returns a guard, whatever the state and the frame. On a new pool, after the
  manager has chosen frame 0 and loaded page 0 into it, both constructors end in the
  deadlock on the pool latch: the pin count is incremented, but the constructor's own
  \<^verbatim>\<open>SetEvictable(frame_id, false)\<close> and the write guard's \<^verbatim>\<open>is_dirty_ = true\<close> are never reached.
  (Lemmas \<open>WritePageGuard_ctor_ok\<close>, \<open>ReadPageGuard_ctor_ok\<close>, \<open>WritePageGuard_Drop_ok\<close> and
  \<open>ReadPageGuard_Drop_ok\<close> above say what the same functions do for a caller that does not
  own the pool latch.)
\<close>

theorem guard_ctor_under_pool_latch:
  "WritePageGuard_ctor pid fid (s\<lparr>bpm_latch := True\<rparr>) \<noteq> Inr (g, s') \<and>
   ReadPageGuard_ctor pid fid (s\<lparr>bpm_latch := True\<rparr>) \<noteq> Inr (g, s') \<and>
   (\<exists>s1 s2. acquire_frame (s_new\<lparr>bpm_latch := True\<rparr>) = Inr (Some 0, s1) \<and>
       load_page 0 0 s1 = Inr s2 \<and> bpm_latch s2 \<and>
       WritePageGuard_ctor 0 0 s2 = Inl Deadlock \<and> ReadPageGuard_ctor 0 0 s2 = Inl Deadlock)"
proof -
  have a: "WritePageGuard_ctor pid fid (s\<lparr>bpm_latch := True\<rparr>) \<noteq> Inr (g, s')"
    using WritePageGuard_ctor_held [of "s\<lparr>bpm_latch := True\<rparr>" pid fid] by auto
  have b: "ReadPageGuard_ctor pid fid (s\<lparr>bpm_latch := True\<rparr>) \<noteq> Inr (g, s')"
    using ReadPageGuard_ctor_held [of "s\<lparr>bpm_latch := True\<rparr>" pid fid] by auto
  have c: "\<exists>s1 s2. acquire_frame (s_new\<lparr>bpm_latch := True\<rparr>) = Inr (Some 0, s1) \<and>
       load_page 0 0 s1 = Inr s2 \<and> bpm_latch s2 \<and>
       WritePageGuard_ctor 0 0 s2 = Inl Deadlock \<and> ReadPageGuard_ctor 0 0 s2 = Inl Deadlock"
    by (simp add: s_new_eq eval_defs fetch_defs)
  show ?thesis using a b c by blast
qed

section \<open>Miss resolution: write-back and read-in\<close>

text \<open>
  The part of the miss path that runs before the guard is constructed: a dirty victim's
  bytes become the disk image of its page and its mapping is erased; loading a page puts
  the page's disk image into the frame and publishes the mapping.
\<close>

lemma write_back_victim_saves:
  assumes "FindPageIdByFrame (page_table s) fid = Some pid" "0 \<le> fid" "nat fid < length (frames s)"
    "is_dirty (frames s ! nat fid)"
  shows "\<exists>s'. write_back_victim fid s = Inr s' \<and>
           disk_pages (disk_scheduler s') pid = data (frames s ! nat fid) \<and>
           map_of (page_table s') pid = None"
  using assms write_and_clean_eq [OF assms(2,3), of pid]
  by (simp add: write_back_victim_def frame_at_def written_back_def delete_conv')

lemma load_page_reads:
  assumes "load_page pid fid s = Inr s'"
  shows "data (frames s' ! nat fid) = disk_pages (disk_scheduler s) pid \<and>
         map_of (page_table s') pid = Some fid"
  using assms
  by (auto simp: load_page_def and_then_def Let_def Schedule_and_wait_def read_request_def
      DiskRequest_init_def frame_put_def frame_at_def DiskManager_ReadPage_def update_conv'
      split: sum.splits if_splits)

section \<open>Frames that leave the pool and their history\<close>

text \<open>\<open>Evict\<close> and \<open>Remove\<close> erase the frame's history; \<open>DeletePage\<close> leaves it.\<close>

lemma Evict_cases:
  assumes "replacer_inv r" "0 < unat (k_dist r)"
  shows "Evict r = Inr (None, r) \<or>
         (\<exists>v. Evict r = Inr (Some v, erase_frame v r) \<and> v \<in> set (node_store r) \<and>
              evictable r v = Some True)"
proof (cases "curr_size r = 0")
  case True
  then show ?thesis by (simp add: Evict_def)
next
  case False
  obtain v where loop: "Evict_loop (node_store r) (evict_vars_init, r) = Inr (v, r)"
    and ok: "vars_ok r (node_store r) v"
    using Evict_loop_result [OF assms] by blast
  show ?thesis
  proof (cases "evict_frame v = - 1")
    case True
    then show ?thesis using False loop by (simp add: Evict_def)
  next
    case ne: False
    then have "evict_frame v \<in> set (node_store r)" "evictable r (evict_frame v) = Some True"
      using ok by (auto simp: vars_ok_def candidate_def)
    then show ?thesis using False loop ne by (simp add: Evict_def)
  qed
qed

lemma replacer_inv_Evict:
  assumes "replacer_inv r" "0 < unat (k_dist r)" "Evict r = Inr (vo, r')"
  shows "replacer_inv r'"
  using Evict_cases [OF assms(1,2)] assms(1,3) replacer_inv_erase_frame [OF assms(1)] by auto

lemma Remove_resets_history:
  assumes "Remove f r = Inr r'"
  shows "f \<notin> set (node_store r') \<and> (f \<in> set (node_store r) \<longrightarrow> access_history r' f = None)"
  using assms
  by (auto simp: Remove_def evictable_at_def erase_frame_def split: if_splits option.splits)

lemma DeletePage_history:
  assumes "DeletePage pid s = Inr (b, s')"
  shows "access_history (replacer s') = access_history (replacer s) \<and>
         node_store (replacer s') = node_store (replacer s)"
proof -
  have se: "\<And>f r r'. SetEvictable f False r = Inr r' \<Longrightarrow>
      access_history r' = access_history r \<and> node_store r' = node_store r"
    by (auto simp: SetEvictable_def evictable_at_def Let_def split: if_splits option.splits)
  show ?thesis using assms
    by (auto simp: DeletePage_def bpm_lock_def bpm_unlock_def and_then_def Let_def frame_put_def
        Schedule_and_wait_def deallocate_request_def DiskRequest_init_def
        dest!: se split: sum.splits option.splits if_splits)
qed

text \<open>
  C4. Deleting page 7 of \<open>s_ex\<close> puts its frame 0 on the free list while the replacer
  still tracks frame 0 with the history \<open>[1]\<close> of the deleted page. When the frame is
  taken from the free list for page 9, the access is appended to the stale timestamp:
  the history is \<open>[1, 3]\<close>, not \<open>[3]\<close>.
\<close>

theorem DeletePage_keeps_history:
  "DeletePage 7 s_ex = Inr (True, s_ex_deleted) \<and> free_frames s_ex_deleted = [0] \<and>
   0 \<in> set (node_store (replacer s_ex_deleted)) \<and>
   access_history (replacer s_ex_deleted) 0 = Some [1] \<and>
   (\<exists>s1 s2. acquire_frame (s_ex_deleted\<lparr>bpm_latch := True\<rparr>) = Inr (Some 0, s1) \<and>
       load_page 9 0 s1 = Inr s2 \<and> access_history (replacer s2) 0 = Some [1, 3])"
  using s_ex_DeletePage s_ex_deleted_recycle
  by (simp add: s_ex_deleted_def s_ex_def)

end
